theory Spec2Isabelle
  imports Main "HOL-Library.AList"
begin

section \<open>Python values\<close>

text \<open>
  A Python \<open>str\<close> is a sequence of Unicode code points, so a string is a list of
  code points (natural numbers below \<open>0x110000\<close>), not a list of bytes.
  \<open>ustr\<close> writes an ASCII literal as such a list.
\<close>

type_synonym pystr = "nat list"

definition ustr :: "string \<Rightarrow> pystr" where
  "ustr s = map of_char s"

text \<open>
  A float is only ever tested for truth and handed on unchanged: sign, mantissa and
  exponent of a finite value, an infinity with its sign, or not-a-number.
\<close>

datatype pyfloat = Finite bool nat int | Infinity bool | NaN

text \<open>
  The values a decoded JSON document is made of. A \<open>dict\<close> keeps its keys in
  insertion order; lookup takes the first entry of a key.
\<close>

datatype pyval =
    PNone
  | PBool bool
  | PInt int
  | PFloat pyfloat
  | PStr pystr
  | PList "pyval list"
  | PDict "(pystr \<times> pyval) list"

type_synonym pydict = "(pystr \<times> pyval) list"

datatype py_error =
    AttributeError
  | TypeError
  | ValueError
  | KeyError
  | IndexError
  | JSONDecodeError
  | OtherError string

text \<open>Truth value testing: \<open>bool(v)\<close>.\<close>

fun truthy :: "pyval \<Rightarrow> bool" where
  "truthy PNone = False"
| "truthy (PBool b) = b"
| "truthy (PInt i) = (i \<noteq> 0)"
| "truthy (PFloat (Finite s m e)) = (m \<noteq> 0)"
| "truthy (PFloat (Infinity s)) = True"
| "truthy (PFloat NaN) = True"
| "truthy (PStr s) = (s \<noteq> [])"
| "truthy (PList xs) = (xs \<noteq> [])"
| "truthy (PDict d) = (d \<noteq> [])"

text \<open>\<open>isinstance(v, str)\<close>, \<open>isinstance(v, list)\<close>, \<open>isinstance(v, dict)\<close>.\<close>

fun isinstance_str :: "pyval \<Rightarrow> bool" where
  "isinstance_str (PStr s) = True"
| "isinstance_str v = False"

fun isinstance_list :: "pyval \<Rightarrow> bool" where
  "isinstance_list (PList xs) = True"
| "isinstance_list v = False"

fun isinstance_dict :: "pyval \<Rightarrow> bool" where
  "isinstance_dict (PDict d) = True"
| "isinstance_dict v = False"

text \<open>
  What the standard library contributes and the repository does not define:
  \<^item> \<open>json_loads\<close>: \<open>json.loads\<close> on a \<open>str\<close>, the decoded value or the
    exception it raises;
  \<^item> \<open>html5\<close>: the table \<open>html.entities.html5\<close> of named character references
    (2231 entries, keys without the leading ampersand);
  \<^item> \<open>int_max_str_digits\<close>: \<open>sys.get_int_max_str_digits()\<close>, the interpreter's
    limit on decimal string to \<open>int\<close> conversion (4300 by default since
    Python 3.11; 0 means no limit, as in older interpreters);
  \<^item> \<open>format_value\<close>: \<open>format(v)\<close> for a value that is not a \<open>str\<close>.
\<close>

record pylib =
  json_loads :: "pystr \<Rightarrow> py_error + pyval"
  html5 :: "pystr \<Rightarrow> pystr option"
  int_max_str_digits :: nat
  format_value :: "pyval \<Rightarrow> pystr"

section \<open>String operations\<close>

text \<open>
  \<open>str.isspace\<close> of one code point. \<open>str.strip()\<close>, \<open>str.split()\<close> and the
  pattern \<open>\s\<close> of \<open>re\<close> on a \<open>str\<close> all use this set.
\<close>

definition isspace :: "nat \<Rightarrow> bool" where
  "isspace c \<longleftrightarrow>
     (9 \<le> c \<and> c \<le> 13) \<or> (28 \<le> c \<and> c \<le> 32) \<or> c = 133 \<or> c = 160 \<or> c = 5760 \<or>
     (8192 \<le> c \<and> c \<le> 8202) \<or> c = 8232 \<or> c = 8233 \<or> c = 8239 \<or> c = 8287 \<or>
     c = 12288"

text \<open>\<open>s.strip()\<close>\<close>

definition strip :: "pystr \<Rightarrow> pystr" where
  "strip s = rev (dropWhile isspace (rev (dropWhile isspace s)))"

text \<open>\<open>s.split()\<close>: the maximal runs of non-whitespace, in order.\<close>

function split :: "pystr \<Rightarrow> pystr list" where
  "split s =
     (case dropWhile isspace s of
        [] \<Rightarrow> []
      | c # cs \<Rightarrow>
          takeWhile (\<lambda>x. \<not> isspace x) (c # cs) # split (dropWhile (\<lambda>x. \<not> isspace x) cs))"
  by pat_completeness auto
termination
proof (relation "measure length")
  show "wf (measure length)" by simp
next
  fix s :: pystr and c cs
  assume a: "dropWhile isspace s = c # cs"
  have "length (dropWhile (\<lambda>x. \<not> isspace x) cs) \<le> length cs"
    by (rule length_dropWhile_le)
  moreover have "length (c # cs) \<le> length s"
    using length_dropWhile_le [of isspace s] a by simp
  ultimately show "(dropWhile (\<lambda>x. \<not> isspace x) cs, s) \<in> measure length"
    by simp
qed

declare split.simps [simp del]

text \<open>\<open>sep.join(parts)\<close>\<close>

fun join :: "pystr \<Rightarrow> pystr list \<Rightarrow> pystr" where
  "join sep [] = []"
| "join sep [x] = x"
| "join sep (x # y # ys) = x @ sep @ join sep (y # ys)"

text \<open>\<open>s.replace(a, b)\<close> for one-character \<open>a\<close> and \<open>b\<close>.\<close>

definition replace :: "nat \<Rightarrow> nat \<Rightarrow> pystr \<Rightarrow> pystr" where
  "replace a b s = map (\<lambda>c. if c = a then b else c) s"

text \<open>
  \<open>re.sub(r'<[^>]*>', ' ', text)\<close>: scanning from the left, a \<open><\<close> that has a
  \<open>>\<close> somewhere after it is replaced, up to and including the first such \<open>>\<close>,
  by one space; any other character is kept.
\<close>

function strip_tags :: "pystr \<Rightarrow> pystr" where
  "strip_tags [] = []"
| "strip_tags (c # cs) =
     (if c = 60 then
        (case dropWhile (\<lambda>x. x \<noteq> 62) cs of
           [] \<Rightarrow> c # strip_tags cs
         | g # rest \<Rightarrow> 32 # strip_tags rest)
      else c # strip_tags cs)"
  by pat_completeness auto
termination
proof (relation "measure length")
  show "wf (measure length)" by simp
next
  fix c :: nat and cs :: pystr
  show "(cs, c # cs) \<in> measure length" by simp
next
  fix c :: nat and cs :: pystr and g rest
  assume "dropWhile (\<lambda>x. x \<noteq> 62) cs = g # rest"
  then have "length (g # rest) \<le> length cs"
    using length_dropWhile_le [of "\<lambda>x. x \<noteq> 62" cs] by simp
  then show "(rest, c # cs) \<in> measure length" by simp
next
  fix c :: nat and cs :: pystr
  show "(cs, c # cs) \<in> measure length" by simp
qed

text \<open>
  \<open>re.sub(r'\s+', ' ', text)\<close>: every maximal run of whitespace becomes one space.
\<close>

function collapse_ws :: "pystr \<Rightarrow> pystr" where
  "collapse_ws [] = []"
| "collapse_ws (c # cs) =
     (if isspace c then 32 # collapse_ws (dropWhile isspace cs) else c # collapse_ws cs)"
  by pat_completeness auto
termination
proof (relation "measure length")
  show "wf (measure length)" by simp
next
  fix c :: nat and cs :: pystr
  have "length (dropWhile isspace cs) \<le> length cs" by (rule length_dropWhile_le)
  then show "(dropWhile isspace cs, c # cs) \<in> measure length" by simp
next
  fix c :: nat and cs :: pystr
  show "(cs, c # cs) \<in> measure length" by simp
qed

section \<open>\<open>html.unescape\<close>\<close>

text \<open>
  The standard library's \<open>html.unescape\<close>, which \<open>cleanup_text\<close> calls, written
  out from \<open>html/__init__.py\<close>: the pattern
  \<^verbatim>\<open>&(#[0-9]+;?|#[xX][0-9a-fA-F]+;?|[^\t\n\f <&#;]{1,32};?)\<close>
  substituted by \<open>_replace_charref\<close>.
\<close>

definition is_digit :: "nat \<Rightarrow> bool" where
  "is_digit c \<longleftrightarrow> 48 \<le> c \<and> c \<le> 57"

definition is_hexdigit :: "nat \<Rightarrow> bool" where
  "is_hexdigit c \<longleftrightarrow> is_digit c \<or> (97 \<le> c \<and> c \<le> 102) \<or> (65 \<le> c \<and> c \<le> 70)"

text \<open>The class \<^verbatim>\<open>[^\t\n\f <&#;]\<close>.\<close>

definition is_name_char :: "nat \<Rightarrow> bool" where
  "is_name_char c \<longleftrightarrow> c \<noteq> 9 \<and> c \<noteq> 10 \<and> c \<noteq> 12 \<and> c \<noteq> 32 \<and> c \<noteq> 60 \<and> c \<noteq> 38 \<and> c \<noteq> 35 \<and> c \<noteq> 59"

text \<open>The optional \<open>;\<close> that ends each alternative: what it takes, and what is left.\<close>

fun opt_semicolon :: "pystr \<Rightarrow> pystr \<times> pystr" where
  "opt_semicolon [] = ([], [])"
| "opt_semicolon (c # cs) = (if c = 59 then ([59], cs) else ([], c # cs))"

text \<open>
  The group of the pattern matched right after an ampersand: the text of the group and
  the rest of the input, or \<open>None\<close> when no alternative matches. The quantifiers are
  greedy and nothing follows the group, so each alternative takes its longest run.
\<close>

definition match_charref :: "pystr \<Rightarrow> (pystr \<times> pystr) option" where
  "match_charref s =
     (case s of
        [] \<Rightarrow> None
      | c # t \<Rightarrow>
          if c = 35 then
            (if takeWhile is_digit t \<noteq> [] then
               (case opt_semicolon (dropWhile is_digit t) of
                  (sc, r) \<Rightarrow> Some (c # takeWhile is_digit t @ sc, r))
             else
               (case t of
                  [] \<Rightarrow> None
                | x # h \<Rightarrow>
                    if (x = 120 \<or> x = 88) \<and> takeWhile is_hexdigit h \<noteq> [] then
                      (case opt_semicolon (dropWhile is_hexdigit h) of
                         (sc, r) \<Rightarrow> Some (c # x # takeWhile is_hexdigit h @ sc, r))
                    else None))
          else if is_name_char c then
            (case opt_semicolon (drop (length (takeWhile is_name_char (take 32 s))) s) of
               (sc, r) \<Rightarrow> Some (takeWhile is_name_char (take 32 s) @ sc, r))
          else None)"

text \<open>\<open>_invalid_charrefs\<close> and \<open>_invalid_codepoints\<close>, in full.\<close>

definition invalid_charrefs :: "(nat \<times> pystr) list" where
  "invalid_charrefs =
     [(0, [65533]), (13, [13]), (128, [8364]), (129, [129]), (130, [8218]), (131, [402]),
      (132, [8222]), (133, [8230]), (134, [8224]), (135, [8225]), (136, [710]),
      (137, [8240]), (138, [352]), (139, [8249]), (140, [338]), (141, [141]),
      (142, [381]), (143, [143]), (144, [144]), (145, [8216]), (146, [8217]),
      (147, [8220]), (148, [8221]), (149, [8226]), (150, [8211]), (151, [8212]),
      (152, [732]), (153, [8482]), (154, [353]), (155, [8250]), (156, [339]),
      (157, [157]), (158, [382]), (159, [376])]"

definition invalid_codepoint :: "nat \<Rightarrow> bool" where
  "invalid_codepoint n \<longleftrightarrow>
     (1 \<le> n \<and> n \<le> 8) \<or> (14 \<le> n \<and> n \<le> 31) \<or> (127 \<le> n \<and> n \<le> 159) \<or>
     (64976 \<le> n \<and> n \<le> 65007) \<or> n = 11 \<or>
     (n \<le> 1114111 \<and> (n mod 65536 = 65534 \<or> n mod 65536 = 65535))"

text \<open>\<open>s.rstrip(';')\<close>\<close>

definition rstrip_semicolon :: "pystr \<Rightarrow> pystr" where
  "rstrip_semicolon s = rev (dropWhile (\<lambda>c. c = 59) (rev s))"

definition digit_value :: "nat \<Rightarrow> nat" where
  "digit_value c =
     (if is_digit c then c - 48 else if 97 \<le> c \<and> c \<le> 102 then c - 87 else c - 55)"

text \<open>
  \<open>int(s, base)\<close> for base 10 or 16, on the strings the pattern lets through (digits of
  the base only). The empty string is a \<open>ValueError\<close>; so is, in base 10, a string
  of more digits than the interpreter's limit, leading zeros counted. A power-of-two
  base has no limit.
\<close>

definition py_int :: "pylib \<Rightarrow> nat \<Rightarrow> pystr \<Rightarrow> py_error + nat" where
  "py_int lib base s =
     (if s = [] \<or> \<not> list_all (if base = 16 then is_hexdigit else is_digit) s then
        Inl ValueError
      else if base = 10 \<and> 0 < int_max_str_digits lib \<and> int_max_str_digits lib < length s then
        Inl ValueError
      else Inr (foldl (\<lambda>a c. a * base + digit_value c) 0 s))"

text \<open>
  The loop \<open>for x in range(len(s)-1, 1, -1)\<close> of \<open>_replace_charref\<close>: the longest
  proper prefix of at least two characters that is a name of the table, counting
  \<open>x\<close> down; its \<open>else\<close> branch returns the text unchanged.
\<close>

fun longest_name :: "pylib \<Rightarrow> pystr \<Rightarrow> nat \<Rightarrow> pystr" where
  "longest_name lib s 0 = 38 # s"
| "longest_name lib s (Suc n) =
     (if Suc n \<le> 1 then 38 # s
      else
        (case html5 lib (take (Suc n) s) of
           Some r \<Rightarrow> r @ drop (Suc n) s
         | None \<Rightarrow> longest_name lib s n))"

text \<open>
  \<open>_replace_charref\<close> on the text of the group. \<open>s[1]\<close> of a one-character group
  would be an \<open>IndexError\<close>; the pattern never produces one.
\<close>

definition replace_charref :: "pylib \<Rightarrow> pystr \<Rightarrow> py_error + pystr" where
  "replace_charref lib s =
     (case s of
        [] \<Rightarrow> Inl IndexError
      | c # t \<Rightarrow>
          if c = 35 then
            (case t of
               [] \<Rightarrow> Inl IndexError
             | x # h \<Rightarrow>
                 (case (if x = 120 \<or> x = 88 then py_int lib 16 (rstrip_semicolon h)
                        else py_int lib 10 (rstrip_semicolon t)) of
                    Inl e \<Rightarrow> Inl e
                  | Inr num \<Rightarrow>
                      (case map_of invalid_charrefs num of
                         Some r \<Rightarrow> Inr r
                       | None \<Rightarrow>
                           if (55296 \<le> num \<and> num \<le> 57343) \<or> 1114111 < num then Inr [65533]
                           else if invalid_codepoint num then Inr []
                           else Inr [num])))
          else
            (case html5 lib s of
               Some r \<Rightarrow> Inr r
             | None \<Rightarrow> Inr (longest_name lib s (length s - 1))))"

text \<open>
  \<open>_charref.sub(_replace_charref, s)\<close>: from the left, each match of the pattern is
  replaced by what \<open>_replace_charref\<close> returns for it, and the scan goes on after the
  match; an exception of the replacement ends the call.
\<close>

lemma match_charref_shorter:
  "match_charref s = Some (g, r) \<Longrightarrow> length r \<le> length s"
proof -
  have sc: "\<And>u a b. opt_semicolon u = (a, b) \<Longrightarrow> length b \<le> length u"
    by (case_tac u) (auto split: if_splits)
  have dw: "\<And>P (u :: pystr). length (dropWhile P u) \<le> length u"
    by (rule length_dropWhile_le)
  assume m: "match_charref s = Some (g, r)"
  show ?thesis
  proof (cases s)
    case Nil
    with m show ?thesis by (simp add: match_charref_def)
  next
    case (Cons c t)
    show ?thesis
    proof (cases "c = 35")
      case True
      show ?thesis
      proof (cases "takeWhile is_digit t \<noteq> []")
        case True
        obtain a b where ab: "opt_semicolon (dropWhile is_digit t) = (a, b)"
          by (cases "opt_semicolon (dropWhile is_digit t)")
        with m Cons \<open>c = 35\<close> True have "r = b" by (simp add: match_charref_def)
        moreover have "length b \<le> length t" using sc [OF ab] dw [of is_digit t] by simp
        ultimately show ?thesis using Cons by simp
      next
        case False
        show ?thesis
        proof (cases t)
          case Nil
          with m Cons \<open>c = 35\<close> False show ?thesis by (simp add: match_charref_def)
        next
          case (Cons x h)
          obtain a b where ab: "opt_semicolon (dropWhile is_hexdigit h) = (a, b)"
            by (cases "opt_semicolon (dropWhile is_hexdigit h)")
          with m \<open>s = c # t\<close> Cons \<open>c = 35\<close> False have "r = b"
            by (simp add: match_charref_def split: if_splits)
          moreover have "length b \<le> length h" using sc [OF ab] dw [of is_hexdigit h] by simp
          ultimately show ?thesis using Cons \<open>s = c # t\<close> by simp
        qed
      qed
    next
      case False
      obtain a b where
        ab: "opt_semicolon (drop (length (takeWhile is_name_char (take 32 s))) s) = (a, b)"
        by (cases "opt_semicolon (drop (length (takeWhile is_name_char (take 32 s))) s)")
      with m Cons False have "r = b"
        by (simp add: match_charref_def split: if_splits)
      moreover have "length b \<le> length s" using sc [OF ab] by simp
      ultimately show ?thesis by simp
    qed
  qed
qed

function charref_sub :: "pylib \<Rightarrow> pystr \<Rightarrow> py_error + pystr" where
  "charref_sub lib [] = Inr []"
| "charref_sub lib (c # cs) =
     (if c = 38 then
        (case match_charref cs of
           None \<Rightarrow>
             (case charref_sub lib cs of Inl e \<Rightarrow> Inl e | Inr u \<Rightarrow> Inr (c # u))
         | Some (g, r) \<Rightarrow>
             (case replace_charref lib g of
                Inl e \<Rightarrow> Inl e
              | Inr t \<Rightarrow>
                  (case charref_sub lib r of Inl e \<Rightarrow> Inl e | Inr u \<Rightarrow> Inr (t @ u))))
      else
        (case charref_sub lib cs of Inl e \<Rightarrow> Inl e | Inr u \<Rightarrow> Inr (c # u)))"
  by pat_completeness auto
termination
  by (relation "measure (\<lambda>(lib, s). length s)")
    (auto dest: match_charref_shorter simp: less_Suc_eq_le)

definition unescape :: "pylib \<Rightarrow> pystr \<Rightarrow> py_error + pystr" where
  "unescape lib s = (if 38 \<notin> set s then Inr s else charref_sub lib s)"

section \<open>The text sanitizer\<close>

text \<open>The \<open>str\<close> inside a value known to be one.\<close>

fun str_of :: "pyval \<Rightarrow> pystr" where
  "str_of (PStr s) = s"
| "str_of v = []"

text \<open>
  \<open>cleanup_text\<close> (lines 64 to 76). The only exception it can raise is the
  \<open>ValueError\<close> of \<open>html.unescape\<close> on a decimal reference longer than the
  interpreter's limit.
\<close>

definition cleanup_text :: "pylib \<Rightarrow> pyval \<Rightarrow> py_error + pystr" where
  "cleanup_text lib text =
     (if \<not> truthy text \<or> \<not> isinstance_str text then Inr []
      else
        (case unescape lib (strip_tags (str_of text)) of
           Inl e \<Rightarrow> Inl e
         | Inr u \<Rightarrow> Inr (strip (collapse_ws (replace 10 32 (replace 13 32 u))))))"

section \<open>Operations on values\<close>

text \<open>\<open>d.get(k)\<close> and \<open>d.get(k, default)\<close> of a \<open>dict\<close>.\<close>

definition dict_get :: "pydict \<Rightarrow> pystr \<Rightarrow> pyval" where
  "dict_get d k = (case map_of d k of None \<Rightarrow> PNone | Some v \<Rightarrow> v)"

definition dict_get_default :: "pydict \<Rightarrow> pystr \<Rightarrow> pyval \<Rightarrow> pyval" where
  "dict_get_default d k dflt = (case map_of d k of None \<Rightarrow> dflt | Some v \<Rightarrow> v)"

text \<open>
  \<open>d.update(e)\<close>: the entries of \<open>e\<close> are stored in order; a key that is there
  keeps its place, a new one goes to the end.
\<close>

definition dict_update :: "pydict \<Rightarrow> pydict \<Rightarrow> pydict" where
  "dict_update d e = foldl (\<lambda>acc kv. AList.update (fst kv) (snd kv) acc) d e"

text \<open>
  \<open>v.get(k)\<close> on a value of any type: only a \<open>dict\<close> has the method.
\<close>

fun py_get :: "pyval \<Rightarrow> pystr \<Rightarrow> py_error + pyval" where
  "py_get (PDict d) k = Inr (dict_get d k)"
| "py_get v k = Inl AttributeError"

text \<open>
  \<open>for x in v\<close>: the elements of a list, the one-character strings of a \<open>str\<close>, the
  keys of a \<open>dict\<close>; anything else is not iterable.
\<close>

fun py_iter :: "pyval \<Rightarrow> py_error + pyval list" where
  "py_iter (PList xs) = Inr xs"
| "py_iter (PStr s) = Inr (map (\<lambda>c. PStr [c]) s)"
| "py_iter (PDict d) = Inr (map (\<lambda>kv. PStr (fst kv)) (AList.clearjunk d))"
| "py_iter v = Inl TypeError"

text \<open>\<open>k in s\<close> for two strings: \<open>k\<close> occurs in \<open>s\<close>.\<close>

fun is_substring :: "pystr \<Rightarrow> pystr \<Rightarrow> bool" where
  "is_substring k [] = (k = [])"
| "is_substring k (c # cs) = (take (length k) (c # cs) = k \<or> is_substring k cs)"

text \<open>\<open>k in v\<close> for a string \<open>k\<close> and a value of any type.\<close>

fun py_contains :: "pyval \<Rightarrow> pystr \<Rightarrow> py_error + bool" where
  "py_contains (PDict d) k = Inr (map_of d k \<noteq> None)"
| "py_contains (PList xs) k = Inr (PStr k \<in> set xs)"
| "py_contains (PStr s) k = Inr (is_substring k s)"
| "py_contains v k = Inl TypeError"

text \<open>\<open>v[k]\<close> for a string \<open>k\<close> and a value of any type.\<close>

fun py_getitem :: "pyval \<Rightarrow> pystr \<Rightarrow> py_error + pyval" where
  "py_getitem (PDict d) k = (case map_of d k of None \<Rightarrow> Inl KeyError | Some v \<Rightarrow> Inr v)"
| "py_getitem v k = Inl TypeError"

text \<open>The elements of a value known to be a list.\<close>

fun list_of :: "pyval \<Rightarrow> pyval list" where
  "list_of (PList xs) = xs"
| "list_of v = []"

text \<open>The \<open>{...}\<close> of an f-string: a \<open>str\<close> as it is, any other value formatted.\<close>

fun fstring_field :: "pylib \<Rightarrow> pyval \<Rightarrow> pystr" where
  "fstring_field lib (PStr s) = s"
| "fstring_field lib v = format_value lib v"

section \<open>The flexible list decoder\<close>

text \<open>
  \<open>try_parse_json_list\<close> (lines 51 to 61). The handler catches
  \<open>JSONDecodeError\<close> and \<open>TypeError\<close>; any other exception of \<open>json.loads\<close>
  leaves the function.
\<close>

definition try_parse_json_list :: "pylib \<Rightarrow> pyval \<Rightarrow> py_error + pyval list" where
  "try_parse_json_list lib v =
     (if \<not> truthy v \<or> \<not> isinstance_str v then Inr []
      else
        (case json_loads lib (str_of v) of
           Inr parsed \<Rightarrow>
             if isinstance_list parsed then Inr (list_of parsed)
             else Inr (if isinstance_dict parsed then [parsed] else [])
         | Inl e \<Rightarrow> if e = JSONDecodeError \<or> e = TypeError then Inr [] else Inl e))"

section \<open>The name parser\<close>

text \<open>
  \<open>parse_person_name\<close> (lines 78 to 99). The argument is whatever the entry holds
  under its name key; \<open>name.strip()\<close> on a value that is true and not a \<open>str\<close> is
  an \<open>AttributeError\<close>. \<open>parts[:-1]\<close> is \<open>butlast\<close>, \<open>parts[-1]\<close> is
  \<open>last\<close> (of a list of two or more).
\<close>

definition parse_person_name :: "pyval \<Rightarrow> py_error + pydict" where
  "parse_person_name name =
     (if \<not> truthy name then Inr []
      else if \<not> isinstance_str name then Inl AttributeError
      else
        (let parts = split (strip (str_of name)) in
           if length parts = 0 then Inr []
           else if length parts = 1 then
             Inr [(ustr ''name'', name), (ustr ''givenName'', name)]
           else
             Inr [(ustr ''name'', name),
                  (ustr ''givenName'', PStr (join (ustr '' '') (butlast parts))),
                  (ustr ''familyName'', PStr (last parts))]))"

section \<open>The record mapper\<close>

text \<open>
  The body of the loops over the decoded \<open>author\<close> and \<open>maintainer\<close> entries (lines
  107 to 114 and 118 to 125, the same text up to the two key names): the person built
  from one entry.
\<close>

definition build_person :: "pystr \<Rightarrow> pystr \<Rightarrow> pyval \<Rightarrow> py_error + pydict" where
  "build_person name_key email_key auth =
     (case py_get auth name_key of
        Inl e \<Rightarrow> Inl e
      | Inr name \<Rightarrow>
          (case parse_person_name name of
             Inl e \<Rightarrow> Inl e
           | Inr parsed \<Rightarrow>
               (case py_get auth email_key of
                  Inl e \<Rightarrow> Inl e
                | Inr email \<Rightarrow>
                    Inr (if truthy email
                         then AList.update (ustr ''email'') email
                                (dict_update [(ustr ''@type'', PStr (ustr ''Person''))] parsed)
                         else dict_update [(ustr ''@type'', PStr (ustr ''Person''))] parsed))))"

text \<open>The loop itself: \<open>acc\<close> is the list appended to.\<close>

fun persons_loop :: "pystr \<Rightarrow> pystr \<Rightarrow> pyval list \<Rightarrow> pyval list \<Rightarrow> py_error + pyval list" where
  "persons_loop name_key email_key [] acc = Inr acc"
| "persons_loop name_key email_key (auth # rest) acc =
     (case build_person name_key email_key auth of
        Inl e \<Rightarrow> Inl e
      | Inr person \<Rightarrow>
          persons_loop name_key email_key rest
            (if truthy (dict_get person (ustr ''name'')) then acc @ [PDict person] else acc))"

text \<open>
  The comprehension of line 128:
  \<^verbatim>\<open>[tag["display_name"] for tag in ... if "display_name" in tag]\<close>
\<close>

fun keywords_loop :: "pyval list \<Rightarrow> py_error + pyval list" where
  "keywords_loop [] = Inr []"
| "keywords_loop (tag # rest) =
     (case py_contains tag (ustr ''display_name'') of
        Inl e \<Rightarrow> Inl e
      | Inr present \<Rightarrow>
          if present then
            (case py_getitem tag (ustr ''display_name'') of
               Inl e \<Rightarrow> Inl e
             | Inr v \<Rightarrow>
                 (case keywords_loop rest of Inl e \<Rightarrow> Inl e | Inr vs \<Rightarrow> Inr (v # vs)))
          else keywords_loop rest)"

text \<open>The body of the loop over the resources (lines 133 to 139).\<close>

definition build_distribution :: "pylib \<Rightarrow> pyval \<Rightarrow> py_error + pydict" where
  "build_distribution lib res =
     (case py_get res (ustr ''name'') of
        Inl e \<Rightarrow> Inl e
      | Inr name \<Rightarrow>
          (case py_get res (ustr ''url'') of
             Inl e \<Rightarrow> Inl e
           | Inr url \<Rightarrow>
               (case py_get res (ustr ''format'') of
                  Inl e \<Rightarrow> Inl e
                | Inr fmt \<Rightarrow>
                    (case py_get res (ustr ''description'') of
                       Inl e \<Rightarrow> Inl e
                     | Inr description \<Rightarrow>
                         (case cleanup_text lib description of
                            Inl e \<Rightarrow> Inl e
                          | Inr cleaned \<Rightarrow>
                              Inr [(ustr ''@type'', PStr (ustr ''DataDownload'')),
                                   (ustr ''name'', name),
                                   (ustr ''contentUrl'', url),
                                   (ustr ''encodingFormat'', fmt),
                                   (ustr ''description'', PStr cleaned)])))))"

fun distributions_loop :: "pylib \<Rightarrow> pyval list \<Rightarrow> pyval list \<Rightarrow> py_error + pyval list" where
  "distributions_loop lib [] acc = Inr acc"
| "distributions_loop lib (res # rest) acc =
     (case build_distribution lib res of
        Inl e \<Rightarrow> Inl e
      | Inr dist \<Rightarrow> distributions_loop lib rest (acc @ [PDict dist]))"

text \<open>Lines 160 to 166: the publisher is added when the organization is true.\<close>

definition add_publisher :: "pydict \<Rightarrow> pydict \<Rightarrow> py_error + pydict" where
  "add_publisher ckan_data schema_org =
     (let org_data = dict_get ckan_data (ustr ''organization'') in
        if truthy org_data then
          (case py_get org_data (ustr ''title'') of
             Inl e \<Rightarrow> Inl e
           | Inr title \<Rightarrow>
               (case py_get org_data (ustr ''description'') of
                  Inl e \<Rightarrow> Inl e
                | Inr description \<Rightarrow>
                    Inr (AList.update (ustr ''publisher'')
                           (PDict [(ustr ''@type'', PStr (ustr ''Organization'')),
                                   (ustr ''name'', title),
                                   (ustr ''description'', description)])
                           schema_org)))
        else Inr schema_org)"

text \<open>
  The dictionary display of lines 142 to 157, its entries evaluated in order; only
  \<open>cleanup_text\<close> on the notes can raise.
\<close>

definition schema_org_dict ::
  "pylib \<Rightarrow> pydict \<Rightarrow> pyval list \<Rightarrow> pyval list \<Rightarrow> pyval list \<Rightarrow> pyval list \<Rightarrow> py_error + pydict"
where
  "schema_org_dict lib ckan_data keywords creators maintainers distributions =
     (case cleanup_text lib (dict_get ckan_data (ustr ''notes'')) of
        Inl e \<Rightarrow> Inl e
      | Inr description \<Rightarrow>
          Inr [(ustr ''@context'', PStr (ustr ''https://schema.org/'')),
               (ustr ''@type'', PStr (ustr ''Dataset'')),
               (ustr ''name'', dict_get ckan_data (ustr ''title'')),
               (ustr ''description'', PStr description),
               (ustr ''identifier'', dict_get ckan_data (ustr ''id'')),
               (ustr ''url'',
                  PStr (ustr ''http://129.187.232.198:5000/dataset/''
                        @ fstring_field lib (dict_get ckan_data (ustr ''name'')))),
               (ustr ''license'',
                  if truthy (dict_get ckan_data (ustr ''license_url''))
                  then dict_get ckan_data (ustr ''license_url'')
                  else dict_get ckan_data (ustr ''license_title'')),
               (ustr ''datePublished'', dict_get ckan_data (ustr ''metadata_created'')),
               (ustr ''dateModified'', dict_get ckan_data (ustr ''metadata_modified'')),
               (ustr ''inLanguage'', dict_get ckan_data (ustr ''language'')),
               (ustr ''keywords'', PList keywords),
               (ustr ''creator'', PList creators),
               (ustr ''maintainer'', PList maintainers),
               (ustr ''distribution'', PList distributions)])"

text \<open>
  \<open>map_to_schema_org\<close> (lines 101 to 168), statement by statement; the first
  exception ends the call.
\<close>

definition map_to_schema_org :: "pylib \<Rightarrow> pydict \<Rightarrow> py_error + pydict" where
  "map_to_schema_org lib ckan_data =
     (case try_parse_json_list lib (dict_get ckan_data (ustr ''author'')) of
        Inl e \<Rightarrow> Inl e
      | Inr authors_raw \<Rightarrow>
     (case persons_loop (ustr ''author_name'') (ustr ''author_email'') authors_raw [] of
        Inl e \<Rightarrow> Inl e
      | Inr creators \<Rightarrow>
     (case try_parse_json_list lib (dict_get ckan_data (ustr ''maintainer'')) of
        Inl e \<Rightarrow> Inl e
      | Inr maintainers_raw \<Rightarrow>
     (case persons_loop (ustr ''maintainer_name'') (ustr ''maintainer_email'') maintainers_raw [] of
        Inl e \<Rightarrow> Inl e
      | Inr maintainers \<Rightarrow>
     (case py_iter (dict_get_default ckan_data (ustr ''tags'') (PList [])) of
        Inl e \<Rightarrow> Inl e
      | Inr tags \<Rightarrow>
     (case keywords_loop tags of
        Inl e \<Rightarrow> Inl e
      | Inr keywords \<Rightarrow>
     (case py_iter (dict_get_default ckan_data (ustr ''resources'') (PList [])) of
        Inl e \<Rightarrow> Inl e
      | Inr resources \<Rightarrow>
     (case distributions_loop lib resources [] of
        Inl e \<Rightarrow> Inl e
      | Inr distributions \<Rightarrow>
     (case schema_org_dict lib ckan_data keywords creators maintainers distributions of
        Inl e \<Rightarrow> Inl e
      | Inr schema_org \<Rightarrow> add_publisher ckan_data schema_org)))))))))"

section \<open>Sample inputs\<close>

text \<open>
  A library instance for evaluating the functions at concrete inputs. It gives what the
  standard library gives on the JSON documents and the character references listed
  (the documents of the repository's tests among them), \<open>JSONDecodeError\<close> for
  any other text, as for \<open>not json\<close>, and the format of \<open>None\<close> and of the
  booleans; the inputs below use nothing else of it.
\<close>

definition sample_documents :: "(pystr \<times> pyval) list" where
  \<open>sample_documents =
     [(ustr ''[{"author_name": "Jane Smith", "author_email": "jane@example.com"}]'',
       PList [PDict [(ustr ''author_name'', PStr (ustr ''Jane Smith'')),
                     (ustr ''author_email'', PStr (ustr ''jane@example.com''))]]),
      (ustr ''[{"author_name": "Jane Smith", "author_email": ""}]'',
       PList [PDict [(ustr ''author_name'', PStr (ustr ''Jane Smith'')),
                     (ustr ''author_email'', PStr [])]]),
      (ustr ''[{"name": "A"}, {"name": "B"}]'',
       PList [PDict [(ustr ''name'', PStr (ustr ''A''))],
              PDict [(ustr ''name'', PStr (ustr ''B''))]]),
      (ustr ''{"name": "A"}'', PDict [(ustr ''name'', PStr (ustr ''A''))]),
      (ustr ''5'', PInt 5)]\<close>

definition html5_excerpt :: "(pystr \<times> pystr) list" where
  \<open>html5_excerpt =
     [(ustr ''amp'', ustr ''&''), (ustr ''amp;'', ustr ''&''),
      (ustr ''lt'', ustr ''<''), (ustr ''lt;'', ustr ''<''),
      (ustr ''gt'', ustr ''>''), (ustr ''gt;'', ustr ''>''),
      (ustr ''quot'', ustr ''"''), (ustr ''quot;'', ustr ''"'')]\<close>

definition sample_lib :: pylib where
  "sample_lib =
     \<lparr> json_loads =
         (\<lambda>s. case map_of sample_documents s of None \<Rightarrow> Inl JSONDecodeError | Some v \<Rightarrow> Inr v),
       html5 = map_of html5_excerpt,
       int_max_str_digits = 4300,
       format_value =
         (\<lambda>v. case v of PNone \<Rightarrow> ustr ''None'' | PBool b \<Rightarrow> (if b then ustr ''True'' else ustr ''False'')
               | _ \<Rightarrow> []) \<rparr>"

text \<open>The record of \<open>test_map_to_schema_org\<close>.\<close>

definition mock_ckan :: pydict where
  \<open>mock_ckan =
     [(ustr ''title'', PStr (ustr ''Test Dataset'')),
      (ustr ''notes'', PStr (ustr ''Description with <p>tags</p>'')),
      (ustr ''id'', PStr (ustr ''123'')),
      (ustr ''name'', PStr (ustr ''test-dataset'')),
      (ustr ''license_title'', PStr (ustr ''MIT'')),
      (ustr ''metadata_created'', PStr (ustr ''2024-01-01'')),
      (ustr ''tags'', PList [PDict [(ustr ''display_name'', PStr (ustr ''Tag1''))]]),
      (ustr ''author'',
         PStr (ustr ''[{"author_name": "Jane Smith", "author_email": "jane@example.com"}]'')),
      (ustr ''resources'',
         PList [PDict [(ustr ''name'', PStr (ustr ''Resource 1'')),
                       (ustr ''url'', PStr (ustr ''http://res.url'')),
                       (ustr ''format'', PStr (ustr ''CSV''))]])]\<close>

text \<open>
  A record with an organization, and with a \<open>license_url\<close> that is present and
  empty.
\<close>

definition org_record :: pydict where
  "org_record =
     [(ustr ''name'', PStr (ustr ''air-quality'')),
      (ustr ''license_url'', PStr []),
      (ustr ''license_title'', PStr (ustr ''MIT'')),
      (ustr ''organization'',
         PDict [(ustr ''title'', PStr (ustr ''Org'')),
                (ustr ''description'', PStr (ustr ''About''))])]"

text \<open>A record whose one author has an \<open>author_email\<close> that is present and empty.\<close>

definition empty_email_record :: pydict where
  \<open>empty_email_record =
     [(ustr ''name'', PStr (ustr ''air-quality'')),
      (ustr ''author'', PStr (ustr ''[{"author_name": "Jane Smith", "author_email": ""}]''))]\<close>

text \<open>
  A string has a match of the tag pattern \<^verbatim>\<open><[^>]*>\<close>: some \<open><\<close> with a \<open>>\<close>
  after it.
\<close>

fun contains_tag :: "pystr \<Rightarrow> bool" where
  "contains_tag [] = False"
| "contains_tag (c # cs) = ((c = 60 \<and> 62 \<in> set cs) \<or> contains_tag cs)"

section \<open>What the record mapper is to produce\<close>

text \<open>The entries of a value known to be a \<open>dict\<close>.\<close>

fun dict_of :: "pyval \<Rightarrow> pydict" where
  "dict_of (PDict d) = d"
| "dict_of v = []"

text \<open>A tag that is a mapping with a \<open>display_name\<close> field, and the value of the field.\<close>

definition has_display_name :: "pyval \<Rightarrow> bool" where
  "has_display_name tag \<longleftrightarrow>
     isinstance_dict tag \<and> map_of (dict_of tag) (ustr ''display_name'') \<noteq> None"

definition display_name_of :: "pyval \<Rightarrow> pyval" where
  "display_name_of tag = dict_get (dict_of tag) (ustr ''display_name'')"

text \<open>The text the sanitizer returns (empty where it raises).\<close>

definition sanitized :: "pylib \<Rightarrow> pyval \<Rightarrow> pystr" where
  "sanitized lib v = (case cleanup_text lib v of Inl e \<Rightarrow> [] | Inr s \<Rightarrow> s)"

text \<open>The \<open>DataDownload\<close> entry of one resource.\<close>

definition distribution_for :: "pylib \<Rightarrow> pyval \<Rightarrow> pyval" where
  "distribution_for lib res =
     PDict [(ustr ''@type'', PStr (ustr ''DataDownload'')),
            (ustr ''name'', dict_get (dict_of res) (ustr ''name'')),
            (ustr ''contentUrl'', dict_get (dict_of res) (ustr ''url'')),
            (ustr ''encodingFormat'', dict_get (dict_of res) (ustr ''format'')),
            (ustr ''description'',
               PStr (sanitized lib (dict_get (dict_of res) (ustr ''description''))))]"

text \<open>
  The person of one decoded entry: the type, then the fields the name parser gives for
  the entry's name, then the entry's e-mail address if that is true. A person counts
  when its \<open>name\<close> is a non-empty string.
\<close>

definition name_fields :: "pyval \<Rightarrow> pydict" where
  "name_fields v = (case parse_person_name v of Inl e \<Rightarrow> [] | Inr parsed \<Rightarrow> parsed)"

definition person_for :: "pystr \<Rightarrow> pystr \<Rightarrow> pyval \<Rightarrow> pydict" where
  "person_for name_key email_key entry =
     (ustr ''@type'', PStr (ustr ''Person''))
     # name_fields (dict_get (dict_of entry) name_key)
     @ (if truthy (dict_get (dict_of entry) email_key)
        then [(ustr ''email'', dict_get (dict_of entry) email_key)] else [])"

definition has_nonempty_name :: "pydict \<Rightarrow> bool" where
  "has_nonempty_name p =
     (case map_of p (ustr ''name'') of Some (PStr s) \<Rightarrow> s \<noteq> [] | _ \<Rightarrow> False)"

definition people_for :: "pystr \<Rightarrow> pystr \<Rightarrow> pyval list \<Rightarrow> pyval list" where
  "people_for name_key email_key entries =
     map PDict (filter has_nonempty_name (map (person_for name_key email_key) entries))"

text \<open>
  A field of the dataset a call returned: \<open>None\<close> when the call raised or the
  dataset has no such key.
\<close>

definition result_field :: "py_error + pydict \<Rightarrow> pystr \<Rightarrow> pyval option" where
  "result_field res k = (case res of Inl e \<Rightarrow> None | Inr out \<Rightarrow> map_of out k)"

text \<open>
  The shape of what the sanitizer returns: the only whitespace is the space character,
  no two of them are adjacent, and none is at either end.
\<close>

fun single_spaced :: "pystr \<Rightarrow> bool" where
  "single_spaced [] = True"
| "single_spaced [c] = (isspace c \<longrightarrow> c = 32)"
| "single_spaced (c # d # cs) = ((isspace c \<longrightarrow> c = 32 \<and> \<not> isspace d) \<and> single_spaced (d # cs))"

definition trimmed :: "pystr \<Rightarrow> bool" where
  "trimmed s \<longleftrightarrow> s = [] \<or> (\<not> isspace (hd s) \<and> \<not> isspace (last s))"

section \<open>Well-formed records\<close>

text \<open>
  The length of the longest run of decimal digits in a string. A decimal character
  reference has at most that many digits, so a text whose longest run is within the
  interpreter's limit (or any text, when there is no limit) is one \<open>html.unescape\<close>
  does not raise on.
\<close>

fun longest_digit_run :: "pystr \<Rightarrow> nat" where
  "longest_digit_run [] = 0"
| "longest_digit_run (c # cs) =
     max (length (takeWhile is_digit (c # cs))) (longest_digit_run cs)"

definition within_digit_limit :: "pylib \<Rightarrow> pystr \<Rightarrow> bool" where
  "within_digit_limit lib s \<longleftrightarrow>
     int_max_str_digits lib = 0 \<or> longest_digit_run s \<le> int_max_str_digits lib"

text \<open>
  \<open>json.loads\<close> keeps to its contract on a field: where \<open>try_parse_json_list\<close>
  calls it, it returns a value or raises what the handler catches.
\<close>

definition loads_within_contract :: "pylib \<Rightarrow> pyval \<Rightarrow> bool" where
  "loads_within_contract lib v \<longleftrightarrow>
     \<not> truthy v \<or> \<not> isinstance_str v \<or>
     (case json_loads lib (str_of v) of
        Inl e \<Rightarrow> e = JSONDecodeError \<or> e = TypeError
      | Inr parsed \<Rightarrow> True)"

text \<open>The list the decoder returns for a field (empty where it raises).\<close>

definition decoded :: "pylib \<Rightarrow> pyval \<Rightarrow> pyval list" where
  "decoded lib v = (case try_parse_json_list lib v of Inl e \<Rightarrow> [] | Inr xs \<Rightarrow> xs)"

text \<open>
  A decoded author or maintainer entry the loop can handle: a mapping whose name is
  false (absent, null, empty) or a string. A resource it can handle: a mapping whose
  description is within the digit limit.
\<close>

definition person_entry_ok :: "pystr \<Rightarrow> pyval \<Rightarrow> bool" where
  "person_entry_ok name_key entry \<longleftrightarrow>
     isinstance_dict entry \<and>
     (\<not> truthy (dict_get (dict_of entry) name_key)
      \<or> isinstance_str (dict_get (dict_of entry) name_key))"

definition resource_ok :: "pylib \<Rightarrow> pyval \<Rightarrow> bool" where
  "resource_ok lib res \<longleftrightarrow>
     isinstance_dict res \<and>
     within_digit_limit lib (str_of (dict_get (dict_of res) (ustr ''description'')))"

text \<open>
  A record every statement of the mapper can handle: the author and maintainer fields
  decode to entries as above, \<open>tags\<close> is absent or a list of mappings,
  \<open>resources\<close> is absent or a list of resources as above, the notes are within
  the digit limit, and \<open>organization\<close> is false or a mapping.
\<close>

definition well_formed :: "pylib \<Rightarrow> pydict \<Rightarrow> bool" where
  "well_formed lib r \<longleftrightarrow>
     loads_within_contract lib (dict_get r (ustr ''author''))
   \<and> list_all (person_entry_ok (ustr ''author_name'')) (decoded lib (dict_get r (ustr ''author'')))
   \<and> loads_within_contract lib (dict_get r (ustr ''maintainer''))
   \<and> list_all (person_entry_ok (ustr ''maintainer_name''))
        (decoded lib (dict_get r (ustr ''maintainer'')))
   \<and> isinstance_list (dict_get_default r (ustr ''tags'') (PList []))
   \<and> list_all isinstance_dict (list_of (dict_get_default r (ustr ''tags'') (PList [])))
   \<and> isinstance_list (dict_get_default r (ustr ''resources'') (PList []))
   \<and> list_all (resource_ok lib) (list_of (dict_get_default r (ustr ''resources'') (PList [])))
   \<and> within_digit_limit lib (str_of (dict_get r (ustr ''notes'')))
   \<and> (\<not> truthy (dict_get r (ustr ''organization''))
      \<or> isinstance_dict (dict_get r (ustr ''organization'')))"

text \<open>A record with a resource that is not a mapping.\<close>

definition bad_resource_record :: pydict where
  "bad_resource_record =
     [(ustr ''title'', PStr (ustr ''Test Dataset'')),
      (ustr ''resources'', PList [PInt 5])]"

section \<open>Literals and the sample inputs, evaluated\<close>

lemma ustr_eq_iff [simp]: "ustr a = ustr b \<longleftrightarrow> a = b"
  unfolding ustr_def by (rule inj_map_eq_map [OF inj_of_char])

lemma ustr_Nil [simp]: "ustr [] = []"
  by (simp add: ustr_def)

lemma ustr_Nil_iff [simp]: "ustr a = [] \<longleftrightarrow> a = []"
  by (simp add: ustr_def)

lemma ustr_Cons: "ustr (c # cs) = of_char c # ustr cs"
  by (simp add: ustr_def)

lemma ustr_append [simp]: "ustr a @ ustr b = ustr (a @ b)"
  by (simp add: ustr_def)

lemma sample_loads_author:
  \<open>json_loads sample_lib
      (ustr ''[{"author_name": "Jane Smith", "author_email": "jane@example.com"}]'') =
    Inr (PList [PDict [(ustr ''author_name'', PStr (ustr ''Jane Smith'')),
                       (ustr ''author_email'', PStr (ustr ''jane@example.com''))]])\<close>
  by (simp add: sample_lib_def sample_documents_def)

lemma split_Jane: "split (strip (ustr ''Jane Smith'')) = [ustr ''Jane'', ustr ''Smith'']"
  by (simp add: split.simps strip_def ustr_Cons isspace_def)

lemma cleanup_notes:
  "cleanup_text lib (PStr (ustr ''Description with <p>tags</p>'')) =
     Inr (ustr ''Description with tags'')"
  by (simp add: cleanup_text_def unescape_def strip_def replace_def ustr_Cons isspace_def)

lemma cleanup_none: "cleanup_text lib PNone = Inr []"
  by (simp add: cleanup_text_def)

text \<open>The mapper on the record of the repository's test, as the test expects.\<close>

lemma mock_result:
  \<open>map_to_schema_org sample_lib mock_ckan =
    Inr [(ustr ''@context'', PStr (ustr ''https://schema.org/'')),
         (ustr ''@type'', PStr (ustr ''Dataset'')),
         (ustr ''name'', PStr (ustr ''Test Dataset'')),
         (ustr ''description'', PStr (ustr ''Description with tags'')),
         (ustr ''identifier'', PStr (ustr ''123'')),
         (ustr ''url'', PStr (ustr ''http://129.187.232.198:5000/dataset/test-dataset'')),
         (ustr ''license'', PStr (ustr ''MIT'')),
         (ustr ''datePublished'', PStr (ustr ''2024-01-01'')),
         (ustr ''dateModified'', PNone),
         (ustr ''inLanguage'', PNone),
         (ustr ''keywords'', PList [PStr (ustr ''Tag1'')]),
         (ustr ''creator'',
            PList [PDict [(ustr ''@type'', PStr (ustr ''Person'')),
                          (ustr ''name'', PStr (ustr ''Jane Smith'')),
                          (ustr ''givenName'', PStr (ustr ''Jane'')),
                          (ustr ''familyName'', PStr (ustr ''Smith'')),
                          (ustr ''email'', PStr (ustr ''jane@example.com''))]]),
         (ustr ''maintainer'', PList []),
         (ustr ''distribution'',
            PList [PDict [(ustr ''@type'', PStr (ustr ''DataDownload'')),
                          (ustr ''name'', PStr (ustr ''Resource 1'')),
                          (ustr ''contentUrl'', PStr (ustr ''http://res.url'')),
                          (ustr ''encodingFormat'', PStr (ustr ''CSV'')),
                          (ustr ''description'', PStr [])]])]\<close>
  by (simp add: map_to_schema_org_def mock_ckan_def dict_get_def dict_get_default_def
      try_parse_json_list_def sample_loads_author build_person_def parse_person_name_def
      split_Jane dict_update_def build_distribution_def cleanup_none cleanup_notes
      schema_org_dict_def add_publisher_def)

lemma org_record_result:
  "map_to_schema_org sample_lib org_record =
    Inr [(ustr ''@context'', PStr (ustr ''https://schema.org/'')),
         (ustr ''@type'', PStr (ustr ''Dataset'')),
         (ustr ''name'', PNone),
         (ustr ''description'', PStr []),
         (ustr ''identifier'', PNone),
         (ustr ''url'', PStr (ustr ''http://129.187.232.198:5000/dataset/air-quality'')),
         (ustr ''license'', PStr (ustr ''MIT'')),
         (ustr ''datePublished'', PNone),
         (ustr ''dateModified'', PNone),
         (ustr ''inLanguage'', PNone),
         (ustr ''keywords'', PList []),
         (ustr ''creator'', PList []),
         (ustr ''maintainer'', PList []),
         (ustr ''distribution'', PList []),
         (ustr ''publisher'',
            PDict [(ustr ''@type'', PStr (ustr ''Organization'')),
                   (ustr ''name'', PStr (ustr ''Org'')),
                   (ustr ''description'', PStr (ustr ''About''))])]"
  by (simp add: map_to_schema_org_def org_record_def dict_get_def dict_get_default_def
      try_parse_json_list_def cleanup_none schema_org_dict_def add_publisher_def)

lemma sample_loads_empty_email:
  \<open>json_loads sample_lib (ustr ''[{"author_name": "Jane Smith", "author_email": ""}]'') =
    Inr (PList [PDict [(ustr ''author_name'', PStr (ustr ''Jane Smith'')),
                       (ustr ''author_email'', PStr [])]])\<close>
  by (simp add: sample_lib_def sample_documents_def)

lemma contains_tag_iff:
  "contains_tag s \<longleftrightarrow> (\<exists>a b c. s = a @ [60] @ b @ [62] @ c \<and> 62 \<notin> set b)"
proof (induction s)
  case Nil
  show ?case by simp
next
  case (Cons x xs)
  show ?case
  proof
    assume "contains_tag (x # xs)"
    then consider "x = 60" "62 \<in> set xs" | "contains_tag xs" by auto
    then show "\<exists>a b c. x # xs = a @ [60] @ b @ [62] @ c \<and> 62 \<notin> set b"
    proof cases
      case 1
      from \<open>62 \<in> set xs\<close> obtain b c where "xs = b @ 62 # c" "62 \<notin> set b"
        by (auto dest: split_list_first)
      with 1 have "x # xs = [] @ [60] @ b @ [62] @ c \<and> 62 \<notin> set b" by simp
      then show ?thesis by blast
    next
      case 2
      with Cons.IH obtain a b c where "xs = a @ [60] @ b @ [62] @ c" "62 \<notin> set b" by blast
      then have "x # xs = (x # a) @ [60] @ b @ [62] @ c \<and> 62 \<notin> set b" by simp
      then show ?thesis by blast
    qed
  next
    assume "\<exists>a b c. x # xs = a @ [60] @ b @ [62] @ c \<and> 62 \<notin> set b"
    then obtain a b c where e: "x # xs = a @ [60] @ b @ [62] @ c" and "62 \<notin> set b" by blast
    show "contains_tag (x # xs)"
    proof (cases a)
      case Nil
      with e show ?thesis by auto
    next
      case (Cons y ys)
      with e have "xs = ys @ [60] @ b @ [62] @ c" by simp
      with \<open>62 \<notin> set b\<close> Cons.IH show ?thesis by auto
    qed
  qed
qed

section \<open>The flexible list decoder: results\<close>



section \<open>The text sanitizer: results\<close>

text \<open>
  Claim C10. There is an input, the escaped text \<open>&lt;p&gt;\<close>, on which the output
  of \<open>cleanup_text\<close> is \<open><p>\<close> and so contains a match of the tag pattern: the
  references are decoded after the tags are stripped. Only the two entries \<open>lt;\<close>
  and \<open>gt;\<close> of the table of named references are used.
\<close>

theorem cleanup_text_output_may_contain_tag:
  assumes "html5 lib (ustr ''lt;'') = Some (ustr ''<'')"
    and "html5 lib (ustr ''gt;'') = Some (ustr ''>'')"
  shows "cleanup_text lib (PStr (ustr ''&lt;p&gt;'')) = Inr (ustr ''<p>'')
         \<and> contains_tag (ustr ''<p>'')"
proof -
  have lt: "html5 lib [108, 116, 59] = Some [60]" and gt: "html5 lib [103, 116, 59] = Some [62]"
    using assms by (simp_all add: ustr_def)
  show ?thesis
    by (simp add: cleanup_text_def unescape_def match_charref_def replace_charref_def
        is_name_char_def strip_def replace_def isspace_def ustr_def lt gt)
qed

theorem cleanup_text_output_may_contain_tag_witness:
  "html5 sample_lib (ustr ''lt;'') = Some (ustr ''<'')
   \<and> html5 sample_lib (ustr ''gt;'') = Some (ustr ''>'')
   \<and> cleanup_text sample_lib (PStr (ustr ''&lt;p&gt;'')) = Inr (ustr ''<p>'')
   \<and> contains_tag (ustr ''<p>'')"
proof -
  have a: "html5 sample_lib (ustr ''lt;'') = Some (ustr ''<'')"
    by (simp add: sample_lib_def html5_excerpt_def)
  have b: "html5 sample_lib (ustr ''gt;'') = Some (ustr ''>'')"
    by (simp add: sample_lib_def html5_excerpt_def)
  show ?thesis
    using a b cleanup_text_output_may_contain_tag [OF a b] by simp
qed

lemma single_spaced_Cons:
  "single_spaced (c # xs) \<longleftrightarrow>
     (isspace c \<longrightarrow> c = 32 \<and> (xs = [] \<or> \<not> isspace (hd xs))) \<and> single_spaced xs"
  by (cases xs) auto

lemma collapse_ws_hd:
  "s \<noteq> [] \<Longrightarrow> \<not> isspace (hd s) \<Longrightarrow> collapse_ws s \<noteq> [] \<and> hd (collapse_ws s) = hd s"
  by (cases s) simp_all

lemma single_spaced_collapse_ws: "single_spaced (collapse_ws s)"
proof (induction s rule: collapse_ws.induct)
  case 1
  show ?case by simp
next
  case (2 c cs)
  show ?case
  proof (cases "isspace c")
    case True
    let ?t = "dropWhile isspace cs"
    have "collapse_ws ?t = [] \<or> \<not> isspace (hd (collapse_ws ?t))"
    proof (cases ?t)
      case Nil
      then show ?thesis by (simp del: dropWhile_eq_Nil_conv)
    next
      case (Cons d ds)
      then have "\<not> isspace d"
        by (metis hd_dropWhile list.distinct(1) list.sel(1))
      with Cons show ?thesis by (simp del: dropWhile_eq_Nil_conv)
    qed
    with True 2(1) show ?thesis
      by (simp add: single_spaced_Cons del: dropWhile_eq_Nil_conv)
  next
    case False
    with 2(2) show ?thesis by (simp add: single_spaced_Cons)
  qed
qed

lemma single_spaced_append:
  "single_spaced (xs @ ys) \<Longrightarrow> single_spaced xs \<and> single_spaced ys"
proof (induction xs)
  case Nil
  then show ?case by simp
next
  case (Cons x xs)
  then show ?case
    by (cases xs) (auto simp: single_spaced_Cons)
qed

lemma collapse_ws_single_spaced: "single_spaced s \<Longrightarrow> collapse_ws s = s"
proof (induction s)
  case Nil
  show ?case by simp
next
  case (Cons c cs)
  from Cons.prems have s: "single_spaced cs" by (simp add: single_spaced_Cons)
  show ?case
  proof (cases "isspace c")
    case True
    with Cons.prems have c: "c = 32" and h: "cs = [] \<or> \<not> isspace (hd cs)"
      by (simp_all add: single_spaced_Cons)
    from h have "dropWhile isspace cs = cs" by (cases cs) auto
    with True c Cons.IH [OF s] show ?thesis by simp
  next
    case False
    with Cons.IH [OF s] show ?thesis by simp
  qed
qed

lemma replace_single_spaced:
  "single_spaced s \<Longrightarrow> isspace a \<Longrightarrow> a \<noteq> 32 \<Longrightarrow> replace a b s = s"
proof (induction s)
  case Nil
  show ?case by (simp add: replace_def)
next
  case (Cons c cs)
  then show ?case by (auto simp: replace_def single_spaced_Cons)
qed

lemma strip_trimmed: "trimmed s \<Longrightarrow> strip s = s"
proof (cases s)
  case Nil
  then show ?thesis by (simp add: strip_def)
next
  case (Cons c cs)
  assume "trimmed s"
  with Cons have h: "\<not> isspace (hd s)" and l: "\<not> isspace (last s)" and n: "s \<noteq> []"
    by (simp_all add: trimmed_def)
  from h n have "dropWhile isspace s = s" by (cases s) auto
  moreover from l n have "dropWhile isspace (rev s) = rev s"
    by (cases "rev s") (auto simp: last_rev [symmetric] hd_rev)
  ultimately show ?thesis by (simp add: strip_def)
qed

lemma trimmed_strip: "trimmed (strip s)"
proof (cases "strip s = []")
  case True
  then show ?thesis by (simp add: trimmed_def)
next
  case False
  let ?t = "dropWhile isspace s"
  let ?x = "dropWhile isspace (rev ?t)"
  from False have x: "?x \<noteq> []" by (simp add: strip_def del: dropWhile_eq_Nil_conv)
  then have "\<not> isspace (hd ?x)" using hd_dropWhile [of isspace "rev ?t"] by blast
  then have l: "\<not> isspace (last (strip s))"
    using x by (simp add: strip_def last_rev del: dropWhile_eq_Nil_conv)
  have d: "?t = strip s @ rev (takeWhile isspace (rev ?t))"
    by (simp add: strip_def flip: rev_append)
  with False have "?t \<noteq> []" by (metis append_is_Nil_conv)
  then have "\<not> isspace (hd ?t)" using hd_dropWhile [of isspace s] by blast
  moreover have "hd ?t = hd (strip s)"
    using False by (subst d) simp
  ultimately show ?thesis using l False by (simp add: trimmed_def)
qed

lemma single_spaced_strip: "single_spaced s \<Longrightarrow> single_spaced (strip s)"
proof -
  assume a: "single_spaced s"
  let ?t = "dropWhile isspace s"
  have "s = takeWhile isspace s @ ?t" by simp
  with a have "single_spaced (takeWhile isspace s @ ?t)" by simp
  then have t: "single_spaced ?t" by (rule single_spaced_append [THEN conjunct2])
  have "?t = strip s @ rev (takeWhile isspace (rev ?t))"
    by (simp add: strip_def flip: rev_append)
  with t have "single_spaced (strip s @ rev (takeWhile isspace (rev ?t)))" by simp
  then show ?thesis by (rule single_spaced_append [THEN conjunct1])
qed

lemma strip_tags_no_tag: "\<not> contains_tag s \<Longrightarrow> strip_tags s = s"
proof (induction s rule: strip_tags.induct)
  case 1
  show ?case by simp
next
  case (2 c cs)
  show ?case
  proof (cases "c = 60")
    case True
    with "2.prems" have n: "62 \<notin> set cs" and r: "\<not> contains_tag cs" by simp_all
    from n have d: "dropWhile (\<lambda>x. x \<noteq> 62) cs = []" by auto
    from "2.IH"(1) [OF True d r] True d show ?thesis by (simp del: dropWhile_eq_Nil_conv)
  next
    case False
    with "2.prems" have "\<not> contains_tag cs" by simp
    from "2.IH"(3) [OF False this] False show ?thesis by simp
  qed
qed

text \<open>
  Claim C2, as stated, fails: the sanitizer is not idempotent. The escaped text
  \<open>&lt;p&gt;\<close> is sanitized to \<open><p>\<close>, and \<open><p>\<close> is sanitized to the empty
  string.
\<close>

theorem cleanup_text_not_idempotent:
  "cleanup_text sample_lib (PStr (ustr ''&lt;p&gt;'')) = Inr (ustr ''<p>'')
   \<and> cleanup_text sample_lib (PStr (ustr ''<p>'')) = Inr []
   \<and> ustr ''<p>'' \<noteq> []"
proof -
  have lt: "html5 sample_lib [108, 116, 59] = Some [60]"
    and gt: "html5 sample_lib [103, 116, 59] = Some [62]"
    by (simp_all add: sample_lib_def html5_excerpt_def ustr_Cons)
  have "cleanup_text sample_lib (PStr (ustr ''&lt;p&gt;'')) = Inr (ustr ''<p>'')"
    by (simp add: cleanup_text_def unescape_def match_charref_def replace_charref_def
        is_name_char_def strip_def replace_def isspace_def ustr_def lt gt)
  moreover have "cleanup_text sample_lib (PStr (ustr ''<p>'')) = Inr []"
    by (simp add: cleanup_text_def unescape_def strip_def replace_def isspace_def ustr_Cons)
  ultimately show ?thesis by simp
qed


text \<open>
  Claim C2, amended. Sanitizing is idempotent wherever its output has no match of the
  tag pattern and no ampersand: if \<open>cleanup_text\<close> returns such a string, it returns
  the same string for it.
\<close>

theorem cleanup_text_idempotent_on_plain_output:
  assumes "cleanup_text lib v = Inr y" and "\<not> contains_tag y" and "38 \<notin> set y"
  shows "cleanup_text lib (PStr y) = Inr y"
proof (cases "y = []")
  case True
  then show ?thesis by (simp add: cleanup_text_def)
next
  case False
  with assms(1) obtain u where
    y: "y = strip (collapse_ws (replace 10 32 (replace 13 32 u)))"
    by (auto simp: cleanup_text_def split: if_splits sum.splits)
  have ss: "single_spaced y"
    unfolding y by (rule single_spaced_strip) (rule single_spaced_collapse_ws)
  have tr: "trimmed y"
    unfolding y by (rule trimmed_strip)
  have 1: "strip_tags y = y" by (rule strip_tags_no_tag) fact
  have 2: "unescape lib y = Inr y" using assms(3) by (simp add: unescape_def)
  have 3: "replace 13 32 y = y" by (rule replace_single_spaced [OF ss]) (simp_all add: isspace_def)
  have 4: "replace 10 32 y = y" by (rule replace_single_spaced [OF ss]) (simp_all add: isspace_def)
  have 5: "collapse_ws y = y" by (rule collapse_ws_single_spaced [OF ss])
  have 6: "strip y = y" by (rule strip_trimmed [OF tr])
  from False show ?thesis
    by (simp add: cleanup_text_def 1 2 3 4 5 6)
qed

theorem cleanup_text_idempotent_on_plain_output_witness:
  "cleanup_text sample_lib (PStr (ustr ''  Too    many    spaces   '')) =
     Inr (ustr ''Too many spaces'')
   \<and> \<not> contains_tag (ustr ''Too many spaces'')
   \<and> 38 \<notin> set (ustr ''Too many spaces'')
   \<and> cleanup_text sample_lib (PStr (ustr ''Too many spaces'')) = Inr (ustr ''Too many spaces'')"
proof -
  have a: "cleanup_text sample_lib (PStr (ustr ''  Too    many    spaces   '')) =
     Inr (ustr ''Too many spaces'')"
    by (simp add: cleanup_text_def unescape_def strip_def replace_def ustr_Cons isspace_def)
  have b: "\<not> contains_tag (ustr ''Too many spaces'')"
    by (simp add: ustr_Cons)
  have c: "38 \<notin> set (ustr ''Too many spaces'')"
    by (simp add: ustr_Cons)
  from cleanup_text_idempotent_on_plain_output [OF a b c] a b c show ?thesis
    by simp
qed

section \<open>The record mapper: results\<close>

text \<open>A call that returns went through every statement; and conversely.\<close>

lemma map_to_schema_org_InrD:
  assumes "map_to_schema_org lib r = Inr out"
  shows "\<exists>authors_raw creators maintainers_raw maintainers tags keywords resources
            distributions schema_org.
     try_parse_json_list lib (dict_get r (ustr ''author'')) = Inr authors_raw
   \<and> persons_loop (ustr ''author_name'') (ustr ''author_email'') authors_raw [] = Inr creators
   \<and> try_parse_json_list lib (dict_get r (ustr ''maintainer'')) = Inr maintainers_raw
   \<and> persons_loop (ustr ''maintainer_name'') (ustr ''maintainer_email'') maintainers_raw [] =
       Inr maintainers
   \<and> py_iter (dict_get_default r (ustr ''tags'') (PList [])) = Inr tags
   \<and> keywords_loop tags = Inr keywords
   \<and> py_iter (dict_get_default r (ustr ''resources'') (PList [])) = Inr resources
   \<and> distributions_loop lib resources [] = Inr distributions
   \<and> schema_org_dict lib r keywords creators maintainers distributions = Inr schema_org
   \<and> add_publisher r schema_org = Inr out"
  using assms unfolding map_to_schema_org_def
  by (simp split: sum.splits)

lemma map_to_schema_org_InrI:
  assumes "try_parse_json_list lib (dict_get r (ustr ''author'')) = Inr authors_raw"
    and "persons_loop (ustr ''author_name'') (ustr ''author_email'') authors_raw [] = Inr creators"
    and "try_parse_json_list lib (dict_get r (ustr ''maintainer'')) = Inr maintainers_raw"
    and "persons_loop (ustr ''maintainer_name'') (ustr ''maintainer_email'') maintainers_raw [] =
       Inr maintainers"
    and "py_iter (dict_get_default r (ustr ''tags'') (PList [])) = Inr tags"
    and "keywords_loop tags = Inr keywords"
    and "py_iter (dict_get_default r (ustr ''resources'') (PList [])) = Inr resources"
    and "distributions_loop lib resources [] = Inr distributions"
    and "schema_org_dict lib r keywords creators maintainers distributions = Inr schema_org"
  shows "map_to_schema_org lib r = add_publisher r schema_org"
  using assms unfolding map_to_schema_org_def by simp

lemma add_publisher_Inr:
  assumes "add_publisher r s = Inr out"
  shows "if truthy (dict_get r (ustr ''organization''))
         then \<exists>d. dict_get r (ustr ''organization'') = PDict d
                \<and> out = AList.update (ustr ''publisher'')
                           (PDict [(ustr ''@type'', PStr (ustr ''Organization'')),
                                   (ustr ''name'', dict_get d (ustr ''title'')),
                                   (ustr ''description'', dict_get d (ustr ''description''))]) s
         else out = s"
proof (cases "dict_get r (ustr ''organization'')")
  case (PDict d)
  with assms show ?thesis by (auto simp: add_publisher_def Let_def split: if_splits)
qed (use assms in \<open>auto simp: add_publisher_def Let_def split: if_splits\<close>)

lemma map_of_add_publisher:
  assumes "add_publisher r s = Inr out" and "k \<noteq> ustr ''publisher''"
  shows "map_of out k = map_of s k"
  using add_publisher_Inr [OF assms(1)] assms(2)
  by (auto simp: update_conv' split: if_splits)


lemma keywords_loop_Inr:
  "keywords_loop ts = Inr ks \<Longrightarrow> ks = map display_name_of (filter has_display_name ts)"
proof (induction ts arbitrary: ks)
  case Nil
  then show ?case by simp
next
  case (Cons tag rest)
  show ?case
  proof (cases "has_display_name tag")
    case True
    then obtain d v where tag: "tag = PDict d" and v: "map_of d (ustr ''display_name'') = Some v"
      by (cases tag) (auto simp: has_display_name_def)
    with Cons.prems obtain vs where vs: "keywords_loop rest = Inr vs" and ks: "ks = v # vs"
      by (auto split: sum.splits)
    from Cons.IH [OF vs] ks tag v True show ?thesis
      by (simp add: display_name_of_def dict_get_def)
  next
    case False
    have "keywords_loop rest = Inr ks"
    proof (cases tag)
      case (PDict d)
      with False Cons.prems show ?thesis by (simp add: has_display_name_def)
    next
      case (PList xs)
      with Cons.prems show ?thesis by (simp split: if_splits)
    next
      case (PStr s)
      with Cons.prems show ?thesis by (simp split: if_splits)
    qed (use Cons.prems in simp_all)
    from Cons.IH [OF this] False show ?thesis by simp
  qed
qed

lemma build_distribution_Inr:
  assumes "build_distribution lib res = Inr dist"
  shows "isinstance_dict res
       \<and> (\<exists>s. cleanup_text lib (dict_get (dict_of res) (ustr ''description'')) = Inr s)
       \<and> PDict dist = distribution_for lib res"
proof (cases res)
  case (PDict d)
  with assms show ?thesis
    by (auto simp: build_distribution_def distribution_for_def sanitized_def split: sum.splits)
qed (use assms in \<open>simp_all add: build_distribution_def\<close>)

lemma distributions_loop_Inr:
  "distributions_loop lib rs acc = Inr ds \<Longrightarrow>
     ds = acc @ map (distribution_for lib) rs
     \<and> list_all isinstance_dict rs
     \<and> list_all (\<lambda>res. \<exists>s. cleanup_text lib (dict_get (dict_of res) (ustr ''description'')) = Inr s) rs"
proof (induction rs arbitrary: acc)
  case Nil
  then show ?case by simp
next
  case (Cons res rest)
  from Cons.prems obtain dist where d: "build_distribution lib res = Inr dist"
    and l: "distributions_loop lib rest (acc @ [PDict dist]) = Inr ds"
    by (auto split: sum.splits)
  from Cons.IH [OF l] build_distribution_Inr [OF d] show ?case by simp
qed


lemma schema_org_dict_Inr:
  assumes "schema_org_dict lib r ks cs ms ds = Inr s"
  shows "\<exists>d. cleanup_text lib (dict_get r (ustr ''notes'')) = Inr d
     \<and> s = [(ustr ''@context'', PStr (ustr ''https://schema.org/'')),
            (ustr ''@type'', PStr (ustr ''Dataset'')),
            (ustr ''name'', dict_get r (ustr ''title'')),
            (ustr ''description'', PStr d),
            (ustr ''identifier'', dict_get r (ustr ''id'')),
            (ustr ''url'',
               PStr (ustr ''http://129.187.232.198:5000/dataset/''
                     @ fstring_field lib (dict_get r (ustr ''name'')))),
            (ustr ''license'',
               if truthy (dict_get r (ustr ''license_url''))
               then dict_get r (ustr ''license_url'')
               else dict_get r (ustr ''license_title'')),
            (ustr ''datePublished'', dict_get r (ustr ''metadata_created'')),
            (ustr ''dateModified'', dict_get r (ustr ''metadata_modified'')),
            (ustr ''inLanguage'', dict_get r (ustr ''language'')),
            (ustr ''keywords'', PList ks),
            (ustr ''creator'', PList cs),
            (ustr ''maintainer'', PList ms),
            (ustr ''distribution'', PList ds)]"
  using assms unfolding schema_org_dict_def by (auto split: sum.splits)

text \<open>
  Claim C6. Whenever the mapper returns a dataset for a record whose \<open>tags\<close> are a
  list (or absent, which counts as the empty list), the \<open>keywords\<close> of the dataset
  are the \<open>display_name\<close> values of the tags that have such a field, in the order of
  the tags; so there are as many keywords as tags with a \<open>display_name\<close>.
\<close>

theorem keywords_are_display_names:
  assumes "map_to_schema_org lib r = Inr out"
    and "dict_get_default r (ustr ''tags'') (PList []) = PList tags"
  shows "map_of out (ustr ''keywords'') =
           Some (PList (map display_name_of (filter has_display_name tags)))
       \<and> length (map display_name_of (filter has_display_name tags)) =
           length (filter has_display_name tags)"
proof -
  from map_to_schema_org_InrD [OF assms(1)] assms(2)
  obtain ks cs ms ds s where k: "keywords_loop tags = Inr ks"
    and s: "schema_org_dict lib r ks cs ms ds = Inr s"
    and p: "add_publisher r s = Inr out"
    by auto
  have "map_of out (ustr ''keywords'') = map_of s (ustr ''keywords'')"
    by (rule map_of_add_publisher [OF p]) simp
  also have "\<dots> = Some (PList ks)"
    using schema_org_dict_Inr [OF s] by auto
  finally show ?thesis
    using keywords_loop_Inr [OF k] by simp
qed

theorem keywords_are_display_names_witness:
  "result_field (map_to_schema_org sample_lib mock_ckan) (ustr ''keywords'') =
     Some (PList [PStr (ustr ''Tag1'')])
   \<and> filter has_display_name [PDict [(ustr ''display_name'', PStr (ustr ''Tag1''))]] =
       [PDict [(ustr ''display_name'', PStr (ustr ''Tag1''))]]"
proof -
  have t: "dict_get_default mock_ckan (ustr ''tags'') (PList []) =
             PList [PDict [(ustr ''display_name'', PStr (ustr ''Tag1''))]]"
    by (simp add: mock_ckan_def dict_get_default_def)
  show ?thesis
    using keywords_are_display_names [OF mock_result t]
    by (simp add: result_field_def mock_result has_display_name_def display_name_of_def
        dict_get_def)
qed

text \<open>
  Claim C7. Whenever the mapper returns a dataset for a record whose \<open>resources\<close> are
  a list (or absent), the \<open>distribution\<close> of the dataset has one \<open>DataDownload\<close>
  entry per resource, in order: \<open>name\<close>, \<open>contentUrl\<close> and \<open>encodingFormat\<close> are
  what \<open>get\<close> gives for \<open>name\<close>, \<open>url\<close> and \<open>format\<close> (\<open>None\<close> when absent),
  and \<open>description\<close> is the string \<open>cleanup_text\<close> returns for the resource's
  description.
\<close>

theorem distribution_per_resource:
  assumes "map_to_schema_org lib r = Inr out"
    and "dict_get_default r (ustr ''resources'') (PList []) = PList resources"
  shows "map_of out (ustr ''distribution'') = Some (PList (map (distribution_for lib) resources))
       \<and> length (map (distribution_for lib) resources) = length resources
       \<and> list_all isinstance_dict resources
       \<and> list_all (\<lambda>res. cleanup_text lib (dict_get (dict_of res) (ustr ''description'')) =
                         Inr (sanitized lib (dict_get (dict_of res) (ustr ''description''))))
           resources"
proof -
  from map_to_schema_org_InrD [OF assms(1)] assms(2)
  obtain ks cs ms ds s where d: "distributions_loop lib resources [] = Inr ds"
    and s: "schema_org_dict lib r ks cs ms ds = Inr s"
    and p: "add_publisher r s = Inr out"
    by auto
  have "map_of out (ustr ''distribution'') = map_of s (ustr ''distribution'')"
    by (rule map_of_add_publisher [OF p]) simp
  also have "\<dots> = Some (PList ds)"
    using schema_org_dict_Inr [OF s] by auto
  finally have "map_of out (ustr ''distribution'') = Some (PList ds)" .
  moreover have "list_all (\<lambda>res. cleanup_text lib (dict_get (dict_of res) (ustr ''description'')) =
                         Inr (sanitized lib (dict_get (dict_of res) (ustr ''description''))))
           resources"
    using distributions_loop_Inr [OF d] by (auto simp: list_all_iff sanitized_def)
  ultimately show ?thesis
    using distributions_loop_Inr [OF d] by simp
qed

theorem distribution_per_resource_witness:
  "result_field (map_to_schema_org sample_lib mock_ckan) (ustr ''distribution'') =
     Some (PList [PDict [(ustr ''@type'', PStr (ustr ''DataDownload'')),
                         (ustr ''name'', PStr (ustr ''Resource 1'')),
                         (ustr ''contentUrl'', PStr (ustr ''http://res.url'')),
                         (ustr ''encodingFormat'', PStr (ustr ''CSV'')),
                         (ustr ''description'', PStr [])]])
   \<and> sanitized sample_lib PNone = []"
proof -
  have t: "dict_get_default mock_ckan (ustr ''resources'') (PList []) =
             PList [PDict [(ustr ''name'', PStr (ustr ''Resource 1'')),
                       (ustr ''url'', PStr (ustr ''http://res.url'')),
                       (ustr ''format'', PStr (ustr ''CSV''))]]"
    by (simp add: mock_ckan_def dict_get_default_def)
  show ?thesis
    using distribution_per_resource [OF mock_result t]
    by (simp add: result_field_def mock_result sanitized_def cleanup_none)
qed

text \<open>
  Claim C8. Whenever the mapper returns a dataset, the dataset has a \<open>publisher\<close>
  exactly when the record's \<open>organization\<close> is true (present and not empty); the
  organization is then a mapping and the publisher is the \<open>Organization\<close> with its
  \<open>title\<close> as name and its \<open>description\<close>; otherwise the dataset has no
  \<open>publisher\<close> key.
\<close>

theorem publisher_iff_organization:
  assumes "map_to_schema_org lib r = Inr out"
  shows "(map_of out (ustr ''publisher'') \<noteq> None \<longleftrightarrow> truthy (dict_get r (ustr ''organization'')))
       \<and> (if truthy (dict_get r (ustr ''organization''))
          then isinstance_dict (dict_get r (ustr ''organization''))
             \<and> map_of out (ustr ''publisher'') =
                 Some (PDict [(ustr ''@type'', PStr (ustr ''Organization'')),
                              (ustr ''name'',
                                 dict_get (dict_of (dict_get r (ustr ''organization''))) (ustr ''title'')),
                              (ustr ''description'',
                                 dict_get (dict_of (dict_get r (ustr ''organization'')))
                                   (ustr ''description''))])
          else ustr ''publisher'' \<notin> fst ` set out)"
proof -
  from map_to_schema_org_InrD [OF assms]
  obtain ks cs ms ds s where s: "schema_org_dict lib r ks cs ms ds = Inr s"
    and p: "add_publisher r s = Inr out"
    by auto
  have n: "ustr ''publisher'' \<notin> fst ` set s"
    using schema_org_dict_Inr [OF s] by auto
  then have m: "map_of s (ustr ''publisher'') = None"
    by (simp add: map_of_eq_None_iff)
  show ?thesis
  proof (cases "truthy (dict_get r (ustr ''organization''))")
    case True
    with add_publisher_Inr [OF p] show ?thesis
      by (auto simp: update_conv')
  next
    case False
    with add_publisher_Inr [OF p] have "out = s" by simp
    with False n m show ?thesis by simp
  qed
qed


theorem publisher_iff_organization_witness:
  "result_field (map_to_schema_org sample_lib org_record) (ustr ''publisher'') =
     Some (PDict [(ustr ''@type'', PStr (ustr ''Organization'')),
                  (ustr ''name'', PStr (ustr ''Org'')),
                  (ustr ''description'', PStr (ustr ''About''))])
   \<and> truthy (dict_get org_record (ustr ''organization''))"
proof -
  have t: "truthy (dict_get org_record (ustr ''organization''))"
    by (simp add: org_record_def dict_get_def)
  show ?thesis
    using publisher_iff_organization [OF org_record_result] t
    by (simp add: result_field_def org_record_result)
qed

text \<open>
  Claim C9, as stated, fails where it says the license is the \<open>license_url\<close> "if
  present": a record whose \<open>license_url\<close> is present and empty gets its
  \<open>license_title\<close>.
\<close>

theorem license_url_present_but_empty:
  "map_of org_record (ustr ''license_url'') = Some (PStr [])
   \<and> result_field (map_to_schema_org sample_lib org_record) (ustr ''license'') =
       Some (PStr (ustr ''MIT''))"
  by (simp add: result_field_def org_record_result) (simp add: org_record_def)

text \<open>
  Claim C9, amended. Whenever the mapper returns a dataset, its \<open>license\<close> is the
  record's \<open>license_url\<close> if that is true (present, not null and not empty), else
  its \<open>license_title\<close>; \<open>name\<close> is the \<open>title\<close>, \<open>description\<close> the string
  \<open>cleanup_text\<close> returns for the \<open>notes\<close>, \<open>identifier\<close> the \<open>id\<close>,
  \<open>url\<close> the fixed base path followed by the record's \<open>name\<close>,
  \<open>datePublished\<close> the \<open>metadata_created\<close>, \<open>dateModified\<close> the
  \<open>metadata_modified\<close>, \<open>inLanguage\<close> the \<open>language\<close>.
\<close>

theorem top_level_fields:
  assumes "map_to_schema_org lib r = Inr out"
  shows "map_of out (ustr ''name'') = Some (dict_get r (ustr ''title''))
     \<and> cleanup_text lib (dict_get r (ustr ''notes'')) = Inr (sanitized lib (dict_get r (ustr ''notes'')))
     \<and> map_of out (ustr ''description'') = Some (PStr (sanitized lib (dict_get r (ustr ''notes''))))
     \<and> map_of out (ustr ''identifier'') = Some (dict_get r (ustr ''id''))
     \<and> map_of out (ustr ''url'') =
         Some (PStr (ustr ''http://129.187.232.198:5000/dataset/''
                     @ fstring_field lib (dict_get r (ustr ''name''))))
     \<and> map_of out (ustr ''license'') =
         Some (if truthy (dict_get r (ustr ''license_url''))
               then dict_get r (ustr ''license_url'')
               else dict_get r (ustr ''license_title''))
     \<and> map_of out (ustr ''datePublished'') = Some (dict_get r (ustr ''metadata_created''))
     \<and> map_of out (ustr ''dateModified'') = Some (dict_get r (ustr ''metadata_modified''))
     \<and> map_of out (ustr ''inLanguage'') = Some (dict_get r (ustr ''language''))"
proof -
  from map_to_schema_org_InrD [OF assms]
  obtain ks cs ms ds s where s: "schema_org_dict lib r ks cs ms ds = Inr s"
    and p: "add_publisher r s = Inr out"
    by auto
  from schema_org_dict_Inr [OF s] obtain d where
    d: "cleanup_text lib (dict_get r (ustr ''notes'')) = Inr d" and
    s': "s = [(ustr ''@context'', PStr (ustr ''https://schema.org/'')),
            (ustr ''@type'', PStr (ustr ''Dataset'')),
            (ustr ''name'', dict_get r (ustr ''title'')),
            (ustr ''description'', PStr d),
            (ustr ''identifier'', dict_get r (ustr ''id'')),
            (ustr ''url'',
               PStr (ustr ''http://129.187.232.198:5000/dataset/''
                     @ fstring_field lib (dict_get r (ustr ''name'')))),
            (ustr ''license'',
               if truthy (dict_get r (ustr ''license_url''))
               then dict_get r (ustr ''license_url'')
               else dict_get r (ustr ''license_title'')),
            (ustr ''datePublished'', dict_get r (ustr ''metadata_created'')),
            (ustr ''dateModified'', dict_get r (ustr ''metadata_modified'')),
            (ustr ''inLanguage'', dict_get r (ustr ''language'')),
            (ustr ''keywords'', PList ks),
            (ustr ''creator'', PList cs),
            (ustr ''maintainer'', PList ms),
            (ustr ''distribution'', PList ds)]"
    by blast
  have k: "\<And>k. k \<noteq> ustr ''publisher'' \<Longrightarrow> map_of out k = map_of s k"
    by (rule map_of_add_publisher [OF p])
  have "map_of out (ustr ''name'') = Some (dict_get r (ustr ''title''))"
    by (simp add: k s')
  moreover have "map_of out (ustr ''description'') = Some (PStr d)"
    by (simp add: k s')
  moreover have "map_of out (ustr ''identifier'') = Some (dict_get r (ustr ''id''))"
    by (simp add: k s')
  moreover have "map_of out (ustr ''url'') =
         Some (PStr (ustr ''http://129.187.232.198:5000/dataset/''
                     @ fstring_field lib (dict_get r (ustr ''name''))))"
    by (simp add: k s')
  moreover have "map_of out (ustr ''license'') =
         Some (if truthy (dict_get r (ustr ''license_url''))
               then dict_get r (ustr ''license_url'')
               else dict_get r (ustr ''license_title''))"
    by (simp add: k s')
  moreover have "map_of out (ustr ''datePublished'') = Some (dict_get r (ustr ''metadata_created''))"
    by (simp add: k s')
  moreover have "map_of out (ustr ''dateModified'') = Some (dict_get r (ustr ''metadata_modified''))"
    by (simp add: k s')
  moreover have "map_of out (ustr ''inLanguage'') = Some (dict_get r (ustr ''language''))"
    by (simp add: k s')
  ultimately show ?thesis using d by (simp add: sanitized_def)
qed

theorem top_level_fields_witness:
  "result_field (map_to_schema_org sample_lib mock_ckan) (ustr ''license'') =
     Some (PStr (ustr ''MIT''))
   \<and> result_field (map_to_schema_org sample_lib mock_ckan) (ustr ''url'') =
       Some (PStr (ustr ''http://129.187.232.198:5000/dataset/test-dataset''))
   \<and> result_field (map_to_schema_org sample_lib mock_ckan) (ustr ''description'') =
       Some (PStr (ustr ''Description with tags''))"
  using top_level_fields [OF mock_result]
  by (simp add: result_field_def mock_result)


lemma parse_person_name_shape:
  assumes "parse_person_name v = Inr parsed"
  shows "parsed = []
       \<or> (truthy v \<and> isinstance_str v
          \<and> (parsed = [(ustr ''name'', v), (ustr ''givenName'', v)]
             \<or> (\<exists>g f. parsed = [(ustr ''name'', v), (ustr ''givenName'', PStr g),
                                (ustr ''familyName'', PStr f)])))"
  using assms unfolding parse_person_name_def
  by (auto simp: Let_def split: if_splits)

lemma build_person_Inr:
  assumes "build_person nk ek e = Inr p"
  shows "isinstance_dict e
       \<and> (\<exists>parsed. parse_person_name (dict_get (dict_of e) nk) = Inr parsed)
       \<and> p = person_for nk ek e
       \<and> (truthy (dict_get p (ustr ''name'')) \<longleftrightarrow> has_nonempty_name p)"
proof (cases e)
  case (PDict d)
  with assms obtain parsed where
    pp: "parse_person_name (dict_get d nk) = Inr parsed" and
    p: "p = (if truthy (dict_get d ek)
             then AList.update (ustr ''email'') (dict_get d ek)
                    (dict_update [(ustr ''@type'', PStr (ustr ''Person''))] parsed)
             else dict_update [(ustr ''@type'', PStr (ustr ''Person''))] parsed)"
    by (auto simp: build_person_def split: sum.splits)
  from parse_person_name_shape [OF pp]
  have q: "p = person_for nk ek e"
    unfolding p using PDict pp
    by (auto simp: person_for_def name_fields_def dict_update_def)
  from parse_person_name_shape [OF pp]
  have "truthy (dict_get p (ustr ''name'')) \<longleftrightarrow> has_nonempty_name p"
    unfolding q using PDict pp
    by (cases "dict_get d nk")
      (auto simp: person_for_def name_fields_def dict_get_def has_nonempty_name_def)
  with q pp PDict show ?thesis by auto
qed (use assms in \<open>simp_all add: build_person_def\<close>)

lemma persons_loop_Inr:
  "persons_loop nk ek es acc = Inr ps \<Longrightarrow>
     ps = acc @ people_for nk ek es
     \<and> list_all isinstance_dict es
     \<and> list_all (\<lambda>e. \<exists>parsed. parse_person_name (dict_get (dict_of e) nk) = Inr parsed) es"
proof (induction es arbitrary: acc)
  case Nil
  then show ?case by (simp add: people_for_def)
next
  case (Cons e rest)
  from Cons.prems obtain p where b: "build_person nk ek e = Inr p"
    and l: "persons_loop nk ek rest
              (if truthy (dict_get p (ustr ''name'')) then acc @ [PDict p] else acc) = Inr ps"
    by (auto split: sum.splits)
  from Cons.IH [OF l] build_person_Inr [OF b] show ?case
    by (auto simp: people_for_def)
qed

text \<open>
  Claim C4, as stated, fails where it says the e-mail address is attached "whenever that
  field is present in the entry": an entry whose \<open>author_email\<close> is present and
  empty gives a person without \<open>email\<close>.
\<close>

theorem author_email_present_but_empty:
  \<open>try_parse_json_list sample_lib (dict_get empty_email_record (ustr ''author'')) =
     Inr [PDict [(ustr ''author_name'', PStr (ustr ''Jane Smith'')),
                 (ustr ''author_email'', PStr [])]]
   \<and> result_field (map_to_schema_org sample_lib empty_email_record) (ustr ''creator'') =
       Some (PList [PDict [(ustr ''@type'', PStr (ustr ''Person'')),
                           (ustr ''name'', PStr (ustr ''Jane Smith'')),
                           (ustr ''givenName'', PStr (ustr ''Jane'')),
                           (ustr ''familyName'', PStr (ustr ''Smith''))]])\<close>
  by (simp add: result_field_def map_to_schema_org_def empty_email_record_def dict_get_def
      dict_get_default_def try_parse_json_list_def sample_loads_empty_email build_person_def
      parse_person_name_def split_Jane dict_update_def cleanup_none schema_org_dict_def
      add_publisher_def)

text \<open>
  Claim C4, amended. Whenever the mapper returns a dataset, the entries decoded from
  \<open>author\<close> are mappings, and \<open>creator\<close> lists, in order, the persons of those
  entries that have a non-empty name: each person is built from the entry's
  \<open>author_name\<close> by the name parser and carries the entry's \<open>author_email\<close> as
  \<open>email\<close> whenever that value is true (present, not null and not empty). The
  \<open>maintainer\<close> list is built the same way from \<open>maintainer\<close> with
  \<open>maintainer_name\<close> and \<open>maintainer_email\<close>.
\<close>

theorem creators_and_maintainers:
  assumes "map_to_schema_org lib r = Inr out"
  shows "\<exists>authors maintainers.
           try_parse_json_list lib (dict_get r (ustr ''author'')) = Inr authors
         \<and> try_parse_json_list lib (dict_get r (ustr ''maintainer'')) = Inr maintainers
         \<and> list_all isinstance_dict authors
         \<and> list_all isinstance_dict maintainers
         \<and> map_of out (ustr ''creator'') =
             Some (PList (people_for (ustr ''author_name'') (ustr ''author_email'') authors))
         \<and> map_of out (ustr ''maintainer'') =
             Some (PList (people_for (ustr ''maintainer_name'') (ustr ''maintainer_email'')
                            maintainers))"
proof -
  from map_to_schema_org_InrD [OF assms]
  obtain authors cs maintainers ms ks ds s where
    a: "try_parse_json_list lib (dict_get r (ustr ''author'')) = Inr authors" and
    c: "persons_loop (ustr ''author_name'') (ustr ''author_email'') authors [] = Inr cs" and
    m: "try_parse_json_list lib (dict_get r (ustr ''maintainer'')) = Inr maintainers" and
    n: "persons_loop (ustr ''maintainer_name'') (ustr ''maintainer_email'') maintainers [] = Inr ms"
    and s: "schema_org_dict lib r ks cs ms ds = Inr s"
    and p: "add_publisher r s = Inr out"
    by auto
  have "map_of out (ustr ''creator'') = map_of s (ustr ''creator'')"
    by (rule map_of_add_publisher [OF p]) simp
  also have "\<dots> = Some (PList cs)"
    using schema_org_dict_Inr [OF s] by auto
  finally have 1: "map_of out (ustr ''creator'') = Some (PList cs)" .
  have "map_of out (ustr ''maintainer'') = map_of s (ustr ''maintainer'')"
    by (rule map_of_add_publisher [OF p]) simp
  also have "\<dots> = Some (PList ms)"
    using schema_org_dict_Inr [OF s] by auto
  finally have 2: "map_of out (ustr ''maintainer'') = Some (PList ms)" .
  from persons_loop_Inr [OF c] persons_loop_Inr [OF n] a m 1 2 show ?thesis
    by auto
qed


theorem creators_and_maintainers_witness:
  \<open>result_field (map_to_schema_org sample_lib mock_ckan) (ustr ''creator'') =
     Some (PList (people_for (ustr ''author_name'') (ustr ''author_email'')
       [PDict [(ustr ''author_name'', PStr (ustr ''Jane Smith'')),
               (ustr ''author_email'', PStr (ustr ''jane@example.com''))]]))
   \<and> people_for (ustr ''author_name'') (ustr ''author_email'')
       [PDict [(ustr ''author_name'', PStr (ustr ''Jane Smith'')),
               (ustr ''author_email'', PStr (ustr ''jane@example.com''))]] =
       [PDict [(ustr ''@type'', PStr (ustr ''Person'')),
               (ustr ''name'', PStr (ustr ''Jane Smith'')),
               (ustr ''givenName'', PStr (ustr ''Jane'')),
               (ustr ''familyName'', PStr (ustr ''Smith'')),
               (ustr ''email'', PStr (ustr ''jane@example.com''))]]
   \<and> result_field (map_to_schema_org sample_lib mock_ckan) (ustr ''maintainer'') =
       Some (PList [])\<close>
proof -
  have a: \<open>try_parse_json_list sample_lib (dict_get mock_ckan (ustr ''author'')) =
      Inr [PDict [(ustr ''author_name'', PStr (ustr ''Jane Smith'')),
               (ustr ''author_email'', PStr (ustr ''jane@example.com''))]]\<close>
    by (simp add: mock_ckan_def dict_get_def try_parse_json_list_def sample_loads_author)
  have m: "try_parse_json_list sample_lib (dict_get mock_ckan (ustr ''maintainer'')) = Inr []"
    by (simp add: mock_ckan_def dict_get_def try_parse_json_list_def)
  have e: \<open>people_for (ustr ''author_name'') (ustr ''author_email'')
       [PDict [(ustr ''author_name'', PStr (ustr ''Jane Smith'')),
               (ustr ''author_email'', PStr (ustr ''jane@example.com''))]] =
       [PDict [(ustr ''@type'', PStr (ustr ''Person'')),
               (ustr ''name'', PStr (ustr ''Jane Smith'')),
               (ustr ''givenName'', PStr (ustr ''Jane'')),
               (ustr ''familyName'', PStr (ustr ''Smith'')),
               (ustr ''email'', PStr (ustr ''jane@example.com''))]]\<close>
    by (simp add: people_for_def person_for_def name_fields_def has_nonempty_name_def
        dict_get_def parse_person_name_def split_Jane)
  from creators_and_maintainers [OF mock_result] a m e show ?thesis
    by (simp add: result_field_def mock_result people_for_def)
qed


section \<open>The name parser: results\<close>

text \<open>
  The tokens of a string are those of the string trimmed: \<open>name.strip().split()\<close>
  is \<open>name.split()\<close>.
\<close>

lemma split_Nil_iff: "split s = [] \<longleftrightarrow> dropWhile isspace s = []"
proof (cases "dropWhile isspace s")
  case Nil
  then show ?thesis by (subst split.simps) (simp del: dropWhile_eq_Nil_conv)
next
  case (Cons c cs)
  then show ?thesis by (subst split.simps) (simp del: dropWhile_eq_Nil_conv)
qed

lemma split_dropWhile: "split (dropWhile isspace s) = split s"
  by (subst split.simps, subst (2) split.simps) (simp add: dropWhile_idem)

lemma split_append_spaces:
  "list_all isspace ws \<Longrightarrow> split (t @ ws) = split t"
proof (induction t rule: split.induct)
  case (1 s)
  show ?case
  proof (cases "dropWhile isspace s")
    case Nil
    then have "\<forall>x\<in>set s. isspace x" by simp
    with 1(2) have "dropWhile isspace (s @ ws) = []"
      by (auto simp: list_all_iff)
    then have "split (s @ ws) = []" by (simp only: split_Nil_iff)
    moreover from Nil have "split s = []" by (simp only: split_Nil_iff)
    ultimately show ?thesis by simp
  next
    case (Cons c cs)
    then have ex: "\<exists>x\<in>set s. \<not> isspace x"
      by (metis dropWhile_eq_Nil_conv list.distinct(1))
    then have d: "dropWhile isspace (s @ ws) = c # cs @ ws"
      using Cons by (auto simp: dropWhile_append1)
    from Cons have nc: "\<not> isspace c"
      by (metis hd_dropWhile list.distinct(1) list.sel(1))
    have tw: "takeWhile (\<lambda>x. \<not> isspace x) (cs @ ws) = takeWhile (\<lambda>x. \<not> isspace x) cs"
    proof (cases "\<forall>x\<in>set cs. \<not> isspace x")
      case True
      have e: "takeWhile (\<lambda>x. \<not> isspace x) ws = []"
        using 1(2) by (cases ws) (auto simp: list_all_iff)
      have "takeWhile (\<lambda>x. \<not> isspace x) (cs @ ws) = cs @ takeWhile (\<lambda>x. \<not> isspace x) ws"
        using True by (simp add: takeWhile_append2)
      also have "\<dots> = cs" by (simp only: e append_Nil2)
      also have "cs = takeWhile (\<lambda>x. \<not> isspace x) cs"
        by (rule takeWhile_eq_all_conv [THEN iffD2, symmetric]) (use True in blast)
      finally show ?thesis .
    next
      case False
      then show ?thesis by (auto simp: takeWhile_append1)
    qed
    have dw: "dropWhile (\<lambda>x. \<not> isspace x) (cs @ ws) = dropWhile (\<lambda>x. \<not> isspace x) cs @ ws"
    proof (cases "\<forall>x\<in>set cs. \<not> isspace x")
      case True
      moreover have "dropWhile (\<lambda>x. \<not> isspace x) ws = ws"
        using 1(2) by (cases ws) (auto simp: list_all_iff)
      ultimately show ?thesis by (simp add: dropWhile_append2 dropWhile_eq_Nil_conv)
    next
      case False
      then show ?thesis by (auto simp: dropWhile_append1)
    qed
    have ih: "split (dropWhile (\<lambda>x. \<not> isspace x) cs @ ws) = split (dropWhile (\<lambda>x. \<not> isspace x) cs)"
      using 1(1) [OF Cons 1(2)] .
    have "split (s @ ws) = (c # takeWhile (\<lambda>x. \<not> isspace x) cs) # split (dropWhile (\<lambda>x. \<not> isspace x) cs)"
      by (subst split.simps) (simp add: d nc tw dw ih)
    moreover have "split s = (c # takeWhile (\<lambda>x. \<not> isspace x) cs) # split (dropWhile (\<lambda>x. \<not> isspace x) cs)"
      by (subst split.simps) (simp add: Cons nc)
    ultimately show ?thesis by simp
  qed
qed

lemma strip_decompose:
  "dropWhile isspace s = strip s @ rev (takeWhile isspace (rev (dropWhile isspace s)))"
  by (simp add: strip_def flip: rev_append)

lemma split_strip: "split (strip s) = split s"
proof -
  have "list_all isspace (rev (takeWhile isspace (rev (dropWhile isspace s))))"
    by (auto simp: list_all_iff dest: set_takeWhileD)
  from split_append_spaces [OF this, of "strip s"]
  have "split (dropWhile isspace s) = split (strip s)"
    using strip_decompose [of s] by simp
  then show ?thesis by (simp add: split_dropWhile)
qed

lemma split_John_Doe:
  "split (ustr ''John  Doe'') = [ustr ''John'', ustr ''Doe'']"
  by (simp add: split.simps ustr_Cons isspace_def)

text \<open>
  Claim C3, as stated, fails in its last part: the \<open>name\<close> field is the name as it
  was passed, not the name trimmed and rejoined. With two spaces between the tokens the
  two differ.
\<close>

theorem name_field_not_rejoined:
  "result_field (parse_person_name (PStr (ustr ''John  Doe''))) (ustr ''name'') =
     Some (PStr (ustr ''John  Doe''))
   \<and> join (ustr '' '') (split (strip (ustr ''John  Doe''))) = ustr ''John Doe''
   \<and> ustr ''John  Doe'' \<noteq> ustr ''John Doe''"
  by (simp add: result_field_def parse_person_name_def split_strip split_John_Doe)


text \<open>
  Claim C3, amended. For every name string with two or more whitespace-separated
  tokens, \<open>parse_person_name\<close> returns the mapping whose \<open>givenName\<close> is all tokens
  but the last joined by single spaces, whose \<open>familyName\<close> is the last token, and
  whose \<open>name\<close> is the string as it was passed.
\<close>

theorem parse_person_name_tokens:
  assumes "split s = given @ [family]" and "given \<noteq> []"
  shows "parse_person_name (PStr s) =
           Inr [(ustr ''name'', PStr s),
                (ustr ''givenName'', PStr (join (ustr '' '') given)),
                (ustr ''familyName'', PStr family)]"
proof -
  from assms have "split s \<noteq> []" by simp
  then have "s \<noteq> []" by (auto simp: split_Nil_iff)
  moreover from assms have "length (split s) \<noteq> 0 \<and> length (split s) \<noteq> 1"
    by (cases given) simp_all
  ultimately show ?thesis
    using assms by (simp add: parse_person_name_def split_strip Let_def)
qed

theorem parse_person_name_tokens_witness:
  "split (ustr ''John  Doe'') = [ustr ''John''] @ [ustr ''Doe'']
   \<and> parse_person_name (PStr (ustr ''John  Doe'')) =
       Inr [(ustr ''name'', PStr (ustr ''John  Doe'')),
            (ustr ''givenName'', PStr (ustr ''John'')),
            (ustr ''familyName'', PStr (ustr ''Doe''))]"
proof -
  have a: "split (ustr ''John  Doe'') = [ustr ''John''] @ [ustr ''Doe'']"
    by (simp add: split_John_Doe)
  from parse_person_name_tokens [OF a] a show ?thesis
    by simp
qed


section \<open>When the sanitizer and the mapper return\<close>

lemma takeWhile_le_longest_digit_run: "length (takeWhile is_digit s) \<le> longest_digit_run s"
  by (cases s) simp_all

lemma longest_digit_run_append: "longest_digit_run r \<le> longest_digit_run (p @ r)"
  by (induction p) (simp_all add: max.coboundedI2)

lemma longest_digit_run_Cons: "longest_digit_run cs \<le> longest_digit_run (c # cs)"
  by simp

lemma longest_digit_run_dropWhile: "longest_digit_run (dropWhile P s) \<le> longest_digit_run s"
  using longest_digit_run_append [of "dropWhile P s" "takeWhile P s"] by simp

lemma opt_semicolon_cases:
  "opt_semicolon u = (a, b) \<Longrightarrow> u = a @ b \<and> (a = [] \<or> a = [59])"
  by (cases u) (auto split: if_splits)

lemma rstrip_semicolon_digits:
  assumes "list_all P ds" and "\<not> P 59" and "sc = [] \<or> sc = [59]"
  shows "rstrip_semicolon (ds @ sc) = ds"
proof -
  have "dropWhile (\<lambda>c. c = 59) (rev ds) = rev ds"
  proof (cases "rev ds")
    case Nil
    then show ?thesis by simp
  next
    case (Cons x xs)
    then have "x \<in> set ds" by (metis list.set_intros(1) set_rev)
    with assms(1,2) have "x \<noteq> 59" by (auto simp: list_all_iff)
    with Cons show ?thesis by simp
  qed
  with assms(3) show ?thesis by (auto simp: rstrip_semicolon_def)
qed

lemma py_int_hex: "hs \<noteq> [] \<Longrightarrow> list_all is_hexdigit hs \<Longrightarrow> \<exists>n. py_int lib 16 hs = Inr n"
  by (simp add: py_int_def)

lemma py_int_dec:
  "ds \<noteq> [] \<Longrightarrow> list_all is_digit ds \<Longrightarrow>
   int_max_str_digits lib = 0 \<or> length ds \<le> int_max_str_digits lib \<Longrightarrow>
   \<exists>n. py_int lib 10 ds = Inr n"
  by (auto simp: py_int_def)

text \<open>What a match leaves and whether its replacement returns.\<close>

lemma match_charref_replace:
  assumes m: "match_charref s = Some (g, r)"
    and w: "int_max_str_digits lib = 0 \<or> longest_digit_run s \<le> int_max_str_digits lib"
  shows "(\<exists>t. replace_charref lib g = Inr t) \<and> longest_digit_run r \<le> longest_digit_run s"
proof (cases s)
  case Nil
  with m show ?thesis by (simp add: match_charref_def)
next
  case (Cons c t)
  have num: "\<And>n. \<exists>x. (case map_of invalid_charrefs n of
      Some r \<Rightarrow> Inr r
    | None \<Rightarrow>
        if (55296 \<le> n \<and> n \<le> 57343) \<or> 1114111 < n then Inr [65533]
        else if invalid_codepoint n then Inr []
        else Inr [n]) = (Inr x :: py_error + pystr)"
    by (simp split: option.splits)
  show ?thesis
  proof (cases "c = 35")
    case True
    note hash = this
    show ?thesis
    proof (cases "takeWhile is_digit t \<noteq> []")
      case True
      let ?ds = "takeWhile is_digit t"
      obtain sc b where ab: "opt_semicolon (dropWhile is_digit t) = (sc, b)"
        by (cases "opt_semicolon (dropWhile is_digit t)")
      with m Cons hash True have g: "g = c # ?ds @ sc" and r: "r = b"
        by (simp_all add: match_charref_def)
      from opt_semicolon_cases [OF ab] have sc: "sc = [] \<or> sc = [59]"
        and d: "dropWhile is_digit t = sc @ r" using r by auto
      from True obtain x h where ds: "?ds = x # h" by (cases ?ds) auto
      then have "x \<in> set ?ds" by simp
      then have xd: "is_digit x" by (rule set_takeWhileD [THEN conjunct2])
      then have x: "x \<noteq> 120 \<and> x \<noteq> 88" by (auto simp: is_digit_def)
      have la: "list_all is_digit ?ds" by (auto simp: list_all_iff dest: set_takeWhileD)
      have "rstrip_semicolon (?ds @ sc) = ?ds"
        by (rule rstrip_semicolon_digits [OF la _ sc]) (simp add: is_digit_def)
      moreover have "length ?ds \<le> longest_digit_run s"
        using takeWhile_le_longest_digit_run [of t] Cons
        by (simp add: max.coboundedI2)
      then have "int_max_str_digits lib = 0 \<or> length ?ds \<le> int_max_str_digits lib"
        using w by auto
      from py_int_dec [OF True la this] obtain n where "py_int lib 10 ?ds = Inr n" ..
      ultimately have "\<exists>t. replace_charref lib g = Inr t"
        using g hash ds x num [of n]
        by (simp add: replace_charref_def del: takeWhile.simps)
      moreover have "longest_digit_run r \<le> longest_digit_run s"
      proof -
        have "t = (?ds @ sc) @ r" using d takeWhile_dropWhile_id [of is_digit t] by simp
        then have "s = (c # ?ds @ sc) @ r" using Cons by simp
        then show ?thesis using longest_digit_run_append [of r "c # ?ds @ sc"] by simp
      qed
      ultimately show ?thesis by simp
    next
      case False
      note nodigit = this
      show ?thesis
      proof (cases t)
        case Nil
        with m Cons hash show ?thesis by (simp add: match_charref_def)
      next
        case (Cons x h)
        note t = this
        let ?hs = "takeWhile is_hexdigit h"
        obtain sc b where ab: "opt_semicolon (dropWhile is_hexdigit h) = (sc, b)"
          by (cases "opt_semicolon (dropWhile is_hexdigit h)")
        from m \<open>s = c # t\<close> t hash nodigit ab
        have xx: "x = 120 \<or> x = 88" and ne: "?hs \<noteq> []"
          and g: "g = c # x # ?hs @ sc" and r: "r = b"
          by (simp_all add: match_charref_def split: if_splits)
        from opt_semicolon_cases [OF ab] have sc: "sc = [] \<or> sc = [59]"
          and d: "dropWhile is_hexdigit h = sc @ r" using r by auto
        have la: "list_all is_hexdigit ?hs" by (auto simp: list_all_iff dest: set_takeWhileD)
        have "rstrip_semicolon (?hs @ sc) = ?hs"
          by (rule rstrip_semicolon_digits [OF la _ sc]) (simp add: is_hexdigit_def is_digit_def)
        moreover from py_int_hex [OF ne la] obtain n where "py_int lib 16 ?hs = Inr n" ..
        ultimately have "\<exists>t. replace_charref lib g = Inr t"
          using g hash xx num [of n]
          by (auto simp add: replace_charref_def)
        moreover have "longest_digit_run r \<le> longest_digit_run s"
        proof -
          have "h = (?hs @ sc) @ r" using d takeWhile_dropWhile_id [of is_hexdigit h] by simp
          then have "s = (c # x # ?hs @ sc) @ r" using \<open>s = c # t\<close> t by simp
          then show ?thesis using longest_digit_run_append [of r "c # x # ?hs @ sc"] by simp
        qed
        ultimately show ?thesis by simp
      qed
    qed
  next
    case False
    let ?nm = "takeWhile is_name_char (take 32 s)"
    obtain sc b where
      ab: "opt_semicolon (drop (length ?nm) s) = (sc, b)"
      by (cases "opt_semicolon (drop (length ?nm) s)")
    with m Cons False have nc: "is_name_char c" and g: "g = ?nm @ sc" and r: "r = b"
      by (simp_all add: match_charref_def split: if_splits)
    from opt_semicolon_cases [OF ab] r have d: "drop (length ?nm) s = sc @ r" by simp
    have "?nm \<noteq> []" using nc Cons by simp
    then obtain y ys where nm: "?nm = y # ys" by (cases ?nm) auto
    then have "y = c" using nc Cons by simp
    have "\<exists>t. replace_charref lib g = Inr t"
      using g nm \<open>y = c\<close> False
      by (simp add: replace_charref_def split: option.splits)
    moreover have "longest_digit_run r \<le> longest_digit_run s"
    proof -
      have "s = take (length ?nm) s @ drop (length ?nm) s" by simp
      then have "s = (take (length ?nm) s @ sc) @ r" using d by simp
      then show ?thesis
        using longest_digit_run_append [of r "take (length ?nm) s @ sc"] by simp
    qed
    ultimately show ?thesis by simp
  qed
qed

lemma charref_sub_returns:
  "int_max_str_digits lib = 0 \<or> longest_digit_run s \<le> int_max_str_digits lib \<Longrightarrow>
   \<exists>u. charref_sub lib s = Inr u"
proof (induction lib s rule: charref_sub.induct)
  case (1 lib)
  show ?case by simp
next
  case (2 lib c cs)
  from "2.prems" have w: "int_max_str_digits lib = 0 \<or> longest_digit_run cs \<le> int_max_str_digits lib"
    by auto
  show ?case
  proof (cases "c = 38")
    case True
    show ?thesis
    proof (cases "match_charref cs")
      case None
      from "2.IH"(1) [OF True None w] True None show ?thesis by auto
    next
      case (Some gr)
      obtain g r where gr: "gr = (g, r)" by (cases gr)
      from match_charref_replace [OF Some [unfolded gr] w]
      obtain t where t: "replace_charref lib g = Inr t"
        and l: "longest_digit_run r \<le> longest_digit_run cs" by auto
      from w l have "int_max_str_digits lib = 0 \<or> longest_digit_run r \<le> int_max_str_digits lib"
        by auto
      from "2.IH"(2) [OF True Some gr [symmetric] t this] True Some gr t show ?thesis
        by auto
    qed
  next
    case False
    from "2.IH"(3) [OF False w] False show ?thesis by auto
  qed
qed

lemma takeWhile_digit_strip_tags: "takeWhile is_digit (strip_tags s) = takeWhile is_digit s"
proof (induction s rule: strip_tags.induct)
  case 1
  show ?case by simp
next
  case (2 c cs)
  show ?case
  proof (cases "c = 60")
    case True
    then show ?thesis by (simp add: is_digit_def split: list.splits)
  next
    case False
    with "2.IH"(3) show ?thesis by simp
  qed
qed

lemma longest_digit_run_strip_tags: "longest_digit_run (strip_tags s) \<le> longest_digit_run s"
proof (induction s rule: strip_tags.induct)
  case 1
  show ?case by simp
next
  case (2 c cs)
  show ?case
  proof (cases "c = 60")
    case True
    show ?thesis
    proof (cases "dropWhile (\<lambda>x. x \<noteq> 62) cs")
      case Nil
      with "2.IH"(1) [OF True Nil] True show ?thesis
        by (simp add: is_digit_def del: dropWhile_eq_Nil_conv) 
    next
      case (Cons g rest)
      have "longest_digit_run rest \<le> longest_digit_run (g # rest)" by simp
      also have "\<dots> \<le> longest_digit_run cs"
        using longest_digit_run_dropWhile [of "\<lambda>x. x \<noteq> 62" cs] Cons by simp
      finally have "longest_digit_run rest \<le> longest_digit_run cs" .
      with "2.IH"(2) [OF True Cons] True Cons show ?thesis
        by (simp add: is_digit_def isspace_def del: dropWhile_eq_Nil_conv)
    qed
  next
    case False
    have "takeWhile is_digit (c # strip_tags cs) = takeWhile is_digit (c # cs)"
      using takeWhile_digit_strip_tags [of cs] by simp
    with "2.IH"(3) [OF False] False show ?thesis
      by (simp del: takeWhile.simps)
  qed
qed

lemma cleanup_text_returns:
  assumes "within_digit_limit lib (str_of v)"
  shows "\<exists>y. cleanup_text lib v = Inr y"
proof (cases "\<not> truthy v \<or> \<not> isinstance_str v")
  case True
  then show ?thesis by (auto simp: cleanup_text_def)
next
  case False
  have "int_max_str_digits lib = 0
        \<or> longest_digit_run (strip_tags (str_of v)) \<le> int_max_str_digits lib"
    using assms longest_digit_run_strip_tags [of "str_of v"]
    by (auto simp: within_digit_limit_def)
  from charref_sub_returns [OF this]
  have "\<exists>u. unescape lib (strip_tags (str_of v)) = Inr u"
    by (simp add: unescape_def)
  with False show ?thesis by (auto simp: cleanup_text_def)
qed


lemma try_parse_json_list_returns:
  "loads_within_contract lib v \<Longrightarrow> try_parse_json_list lib v = Inr (decoded lib v)"
  by (auto simp: loads_within_contract_def decoded_def try_parse_json_list_def
      split: sum.splits)

lemma parse_person_name_returns:
  "\<not> truthy v \<or> isinstance_str v \<Longrightarrow> \<exists>p. parse_person_name v = Inr p"
  by (auto simp: parse_person_name_def Let_def)

lemma build_person_returns:
  assumes "person_entry_ok nk e"
  shows "\<exists>p. build_person nk ek e = Inr p"
proof -
  from assms obtain d where e: "e = PDict d"
    by (cases e) (simp_all add: person_entry_ok_def)
  with assms have "\<not> truthy (dict_get d nk) \<or> isinstance_str (dict_get d nk)"
    by (simp add: person_entry_ok_def)
  from parse_person_name_returns [OF this] e show ?thesis
    by (auto simp: build_person_def)
qed

lemma persons_loop_returns:
  "list_all (person_entry_ok nk) es \<Longrightarrow> \<exists>ps. persons_loop nk ek es acc = Inr ps"
proof (induction es arbitrary: acc)
  case Nil
  show ?case by simp
next
  case (Cons e rest)
  from Cons.prems have "person_entry_ok nk e" and r: "list_all (person_entry_ok nk) rest"
    by simp_all
  from build_person_returns [OF this(1)] obtain p where "build_person nk ek e = Inr p" ..
  with Cons.IH [OF r] show ?case by simp
qed

lemma keywords_loop_returns:
  "list_all isinstance_dict ts \<Longrightarrow> \<exists>ks. keywords_loop ts = Inr ks"
proof (induction ts)
  case Nil
  show ?case by simp
next
  case (Cons tag rest)
  from Cons.prems obtain d where "tag = PDict d" by (cases tag) simp_all
  moreover from Cons obtain ks where "keywords_loop rest = Inr ks" by auto
  ultimately show ?case by (auto split: option.splits)
qed

lemma build_distribution_returns:
  assumes "resource_ok lib res"
  shows "\<exists>dist. build_distribution lib res = Inr dist"
proof -
  from assms obtain d where r: "res = PDict d"
    by (cases res) (simp_all add: resource_ok_def)
  with assms have "within_digit_limit lib (str_of (dict_get d (ustr ''description'')))"
    by (simp add: resource_ok_def)
  from cleanup_text_returns [OF this] r show ?thesis
    by (auto simp: build_distribution_def)
qed

lemma distributions_loop_returns:
  "list_all (resource_ok lib) rs \<Longrightarrow> \<exists>ds. distributions_loop lib rs acc = Inr ds"
proof (induction rs arbitrary: acc)
  case Nil
  show ?case by simp
next
  case (Cons res rest)
  from Cons.prems have "resource_ok lib res" and r: "list_all (resource_ok lib) rest"
    by simp_all
  from build_distribution_returns [OF this(1)] obtain dist where
    "build_distribution lib res = Inr dist" ..
  with Cons.IH [OF r] show ?case by simp
qed

lemma add_publisher_returns:
  assumes "\<not> truthy (dict_get r (ustr ''organization''))
         \<or> isinstance_dict (dict_get r (ustr ''organization''))"
  shows "\<exists>out. add_publisher r s = Inr out"
  using assms
  by (cases "dict_get r (ustr ''organization'')") (auto simp: add_publisher_def Let_def)

text \<open>
  Claim C1, as stated, fails: a malformed sub-structure does not degrade to an omission,
  it ends the call with an exception. A resource that is not a mapping is an
  \<open>AttributeError\<close>.
\<close>

theorem map_to_schema_org_raises:
  "map_to_schema_org sample_lib bad_resource_record = Inl AttributeError"
  by (simp add: map_to_schema_org_def bad_resource_record_def dict_get_def dict_get_default_def
      try_parse_json_list_def build_distribution_def)

text \<open>
  Claim C1, amended. On every well-formed record \<open>map_to_schema_org\<close> returns a
  dataset (of type \<open>Dataset\<close>) without raising.
\<close>

theorem map_to_schema_org_returns:
  assumes "well_formed lib r"
  shows "\<exists>out. map_to_schema_org lib r = Inr out
             \<and> map_of out (ustr ''@type'') = Some (PStr (ustr ''Dataset''))"
proof -
  let ?tags = "dict_get_default r (ustr ''tags'') (PList [])"
  let ?res = "dict_get_default r (ustr ''resources'') (PList [])"
  from assms have w1: "loads_within_contract lib (dict_get r (ustr ''author''))"
    and w2: "list_all (person_entry_ok (ustr ''author_name''))
               (decoded lib (dict_get r (ustr ''author'')))"
    and w3: "loads_within_contract lib (dict_get r (ustr ''maintainer''))"
    and w4: "list_all (person_entry_ok (ustr ''maintainer_name''))
               (decoded lib (dict_get r (ustr ''maintainer'')))"
    and w5: "isinstance_list ?tags"
    and w6: "list_all isinstance_dict (list_of ?tags)"
    and w7: "isinstance_list ?res"
    and w8: "list_all (resource_ok lib) (list_of ?res)"
    and w9: "within_digit_limit lib (str_of (dict_get r (ustr ''notes'')))"
    and w10: "\<not> truthy (dict_get r (ustr ''organization''))
              \<or> isinstance_dict (dict_get r (ustr ''organization''))"
    by (simp_all add: well_formed_def)
  note a = try_parse_json_list_returns [OF w1]
  note m = try_parse_json_list_returns [OF w3]
  from persons_loop_returns [OF w2] obtain cs where
    c: "persons_loop (ustr ''author_name'') (ustr ''author_email'')
          (decoded lib (dict_get r (ustr ''author''))) [] = Inr cs"
    by blast
  from persons_loop_returns [OF w4] obtain ms where
    n: "persons_loop (ustr ''maintainer_name'') (ustr ''maintainer_email'')
          (decoded lib (dict_get r (ustr ''maintainer''))) [] = Inr ms"
    by blast
  from w5 have t: "py_iter ?tags = Inr (list_of ?tags)"
    by (cases ?tags) simp_all
  from keywords_loop_returns [OF w6] obtain ks where
    k: "keywords_loop (list_of ?tags) = Inr ks"
    by blast
  from w7 have i: "py_iter ?res = Inr (list_of ?res)"
    by (cases ?res) simp_all
  from distributions_loop_returns [OF w8] obtain ds where
    d: "distributions_loop lib (list_of ?res) [] = Inr ds"
    by blast
  from cleanup_text_returns [OF w9] obtain y where
    "cleanup_text lib (dict_get r (ustr ''notes'')) = Inr y"
    by blast
  then obtain s where s: "schema_org_dict lib r ks cs ms ds = Inr s"
    by (simp add: schema_org_dict_def)
  from add_publisher_returns [OF w10] obtain out where p: "add_publisher r s = Inr out"
    by blast
  have "map_to_schema_org lib r = Inr out"
    using map_to_schema_org_InrI [OF a c m n t k i d s] p by simp
  moreover have "map_of out (ustr ''@type'') = map_of s (ustr ''@type'')"
    by (rule map_of_add_publisher [OF p]) simp
  moreover have "map_of s (ustr ''@type'') = Some (PStr (ustr ''Dataset''))"
    using schema_org_dict_Inr [OF s] by auto
  ultimately show ?thesis by simp
qed

lemma well_formed_mock: "well_formed sample_lib mock_ckan"
proof -
  have a: \<open>dict_get mock_ckan (ustr ''author'') =
      PStr (ustr ''[{"author_name": "Jane Smith", "author_email": "jane@example.com"}]'')\<close>
    by (simp add: mock_ckan_def dict_get_def)
  have la: "loads_within_contract sample_lib (dict_get mock_ckan (ustr ''author''))"
    unfolding a by (simp add: loads_within_contract_def sample_loads_author)
  have da: "decoded sample_lib (dict_get mock_ckan (ustr ''author'')) =
      [PDict [(ustr ''author_name'', PStr (ustr ''Jane Smith'')),
              (ustr ''author_email'', PStr (ustr ''jane@example.com''))]]"
    unfolding a by (simp add: decoded_def try_parse_json_list_def sample_loads_author)
  have m: "dict_get mock_ckan (ustr ''maintainer'') = PNone"
    by (simp add: mock_ckan_def dict_get_def)
  have n: "within_digit_limit sample_lib (str_of (dict_get mock_ckan (ustr ''notes'')))"
    by (simp add: mock_ckan_def dict_get_def within_digit_limit_def sample_lib_def ustr_Cons
        is_digit_def)
  have r: "list_all (resource_ok sample_lib)
             (list_of (dict_get_default mock_ckan (ustr ''resources'') (PList [])))"
    by (simp add: mock_ckan_def dict_get_default_def resource_ok_def dict_get_def
        within_digit_limit_def)
  show ?thesis
    unfolding well_formed_def da m
    using la n r
    by (simp add: loads_within_contract_def decoded_def try_parse_json_list_def
        person_entry_ok_def)
      (simp add: mock_ckan_def dict_get_def dict_get_default_def)
qed

theorem map_to_schema_org_returns_witness:
  "well_formed sample_lib mock_ckan
   \<and> result_field (map_to_schema_org sample_lib mock_ckan) (ustr ''@type'') =
       Some (PStr (ustr ''Dataset''))"
  using map_to_schema_org_returns [OF well_formed_mock] well_formed_mock
  by (auto simp: result_field_def)


end
